theory Spec2Isabelle
  imports Main "HOL-Library.Word"
begin

section \<open>C-BMP\_Lib: a shallow embedding of \<^verbatim>\<open>bmap.c\<close>\<close>

text \<open>
  The library of \<^verbatim>\<open>src/bmap.c\<close> and \<^verbatim>\<open>include/bmap.h\<close> is embedded function by
  function. The C types are read on an LP64 platform with 8-bit bytes and little-endian
  byte order: \<^verbatim>\<open>int\<close>, \<^verbatim>\<open>int32_t\<close> and \<^verbatim>\<open>uint32_t\<close> are 32-bit words (a signed one is
  read by \<open>sint\<close>), \<^verbatim>\<open>uint16_t\<close> is a 16-bit word, \<^verbatim>\<open>uint8_t\<close> an 8-bit word and
  \<^verbatim>\<open>size_t\<close> a 64-bit word, whose arithmetic wraps around. The three structs that are
  written to and read from a file are packed (\<^verbatim>\<open>#pragma pack(push, 1)\<close>), so
  \<^verbatim>\<open>sizeof(Pixel)\<close> is 3, \<^verbatim>\<open>sizeof(BMPFileHeader)\<close> is 14 and
  \<^verbatim>\<open>sizeof(BMPInfoHeader)\<close> is 40; \<^verbatim>\<open>sizeof(BMPImage)\<close> is 16.
\<close>

type_synonym byte = "8 word"
type_synonym uint16_t = "16 word"
type_synonym uint32_t = "32 word"
type_synonym int32_t = "32 word"
type_synonym c_int = "32 word"
type_synonym size_t = "64 word"

subsection \<open>Data types of \<^verbatim>\<open>bmap.h\<close>\<close>

datatype BMPError =
  BMP_SUCCESS | BMP_ERR_FILE_NOT_FOUND | BMP_ERR_INVALID_FORMAT | BMP_ERR_MALLOC_FAILED

record Pixel =
  blue :: byte
  green :: byte
  red :: byte

text \<open>
  The field \<open>data\<close> is a pointer: \<open>None\<close> is \<^verbatim>\<open>NULL\<close>, and \<open>Some buf\<close> points to a
  heap block that holds the pixels \<open>buf\<close> and nothing more. A \<^verbatim>\<open>BMPImage*\<close> argument
  \<^verbatim>\<open>image\<close> is a \<open>BMPImage option\<close> in the same way, named \<open>imagep\<close>.
\<close>

record BMPImage =
  width :: c_int
  height :: c_int
  data :: "Pixel list option"

subsection \<open>Behaviour that C leaves undefined\<close>

text \<open>
  A C function either returns or runs into behaviour the language does not define: an
  overflow of signed \<^verbatim>\<open>int\<close> arithmetic, an access outside of a heap block or an
  array, an access through a null pointer (a null \<^verbatim>\<open>FILE*\<close> given to \<^verbatim>\<open>fread\<close>
  included). The embedding makes each of these a value.
\<close>

datatype ub = SignedOverflow | OutOfBounds | NullPointer

datatype 'a outcome = Returns 'a | Undefined ub

fun and_then :: "'a outcome \<Rightarrow> ('a \<Rightarrow> 'b outcome) \<Rightarrow> 'b outcome" where
  "and_then (Returns x) f = f x"
| "and_then (Undefined u) f = Undefined u"

definition INT_MAX :: int where
  "INT_MAX = 2147483647"

definition INT_MIN :: int where
  "INT_MIN = - 2147483648"

text \<open>The result of an \<^verbatim>\<open>int\<close> operation whose mathematical value is \<open>r\<close>.\<close>

definition c_int_result :: "int \<Rightarrow> int outcome" where
  "c_int_result r = (if INT_MIN \<le> r \<and> r \<le> INT_MAX then Returns r else Undefined SignedOverflow)"

definition c_add :: "int \<Rightarrow> int \<Rightarrow> int outcome" where
  "c_add a b = c_int_result (a + b)"

definition c_sub :: "int \<Rightarrow> int \<Rightarrow> int outcome" where
  "c_sub a b = c_int_result (a - b)"

definition c_mul :: "int \<Rightarrow> int \<Rightarrow> int outcome" where
  "c_mul a b = c_int_result (a * b)"

text \<open>\<^verbatim>\<open>abs\<close> of \<^verbatim>\<open>stdlib.h\<close>: undefined at \<^verbatim>\<open>INT_MIN\<close>.\<close>

definition c_abs :: "int \<Rightarrow> int outcome" where
  "c_abs a = c_int_result \<bar>a\<bar>"

text \<open>
  \<^verbatim>\<open>for (int i = 0; i < n; i++) body\<close>, where the body changes neither \<open>i\<close> nor \<open>n\<close>:
  \<open>for_loop k i\<close> runs the \<open>k\<close> iterations from \<open>i\<close> on. The increment cannot
  overflow, because \<open>i < n\<close> holds before it.
\<close>

primrec for_loop :: "nat \<Rightarrow> int \<Rightarrow> (int \<Rightarrow> 's \<Rightarrow> 's outcome) \<Rightarrow> 's \<Rightarrow> 's outcome" where
  "for_loop 0 i body s = Returns s"
| "for_loop (Suc k) i body s = and_then (body i s) (for_loop k (i + 1) body)"

definition c_for :: "int \<Rightarrow> (int \<Rightarrow> 's \<Rightarrow> 's outcome) \<Rightarrow> 's \<Rightarrow> 's outcome" where
  "c_for n body s = for_loop (nat n) 0 body s"

subsection \<open>Heap blocks\<close>

text \<open>
  \<open>load_at\<close> and \<open>store_at\<close> are \<^verbatim>\<open>buf[k]\<close> as a value and as the target of an
  assignment; \<open>slice\<close> is the \<open>n\<close> elements from \<^verbatim>\<open>&buf[k]\<close> on, which \<^verbatim>\<open>fwrite\<close>
  reads, and \<open>store_slice\<close> overwrites the elements from \<^verbatim>\<open>&buf[k]\<close> on, as
  \<^verbatim>\<open>fread\<close> does.
\<close>

definition load_at :: "'a list \<Rightarrow> int \<Rightarrow> 'a outcome" where
  "load_at buf k =
     (if 0 \<le> k \<and> k < int (length buf) then Returns (buf ! nat k) else Undefined OutOfBounds)"

definition store_at :: "'a list \<Rightarrow> int \<Rightarrow> 'a \<Rightarrow> 'a list outcome" where
  "store_at buf k v =
     (if 0 \<le> k \<and> k < int (length buf) then Returns (buf[nat k := v]) else Undefined OutOfBounds)"

definition slice :: "'a list \<Rightarrow> int \<Rightarrow> nat \<Rightarrow> 'a list outcome" where
  "slice buf k n =
     (if 0 \<le> k \<and> nat k + n \<le> length buf then Returns (take n (drop (nat k) buf))
      else Undefined OutOfBounds)"

definition store_slice :: "'a list \<Rightarrow> int \<Rightarrow> 'a list \<Rightarrow> 'a list outcome" where
  "store_slice buf k vs =
     (if 0 \<le> k \<and> nat k + length vs \<le> length buf
      then Returns (take (nat k) buf @ vs @ drop (nat k + length vs) buf)
      else Undefined OutOfBounds)"

subsection \<open>Padding\<close>

text \<open>
  \<^verbatim>\<open>return (4 - (width * sizeof(Pixel)) % 4) % 4;\<close> The operand \<^verbatim>\<open>width\<close> is converted
  to \<^verbatim>\<open>size_t\<close>, the arithmetic is that of \<^verbatim>\<open>size_t\<close>, and the result is converted
  to \<^verbatim>\<open>int\<close>.
\<close>

definition calculate_padding :: "c_int \<Rightarrow> c_int" where
  "calculate_padding w = ucast (((4 :: size_t) - (scast w * 3) mod 4) mod 4)"

subsection \<open>The two headers and their bytes\<close>

record BMPFileHeader =
  fh_type :: uint16_t
  fh_size :: uint32_t
  fh_reserved1 :: uint16_t
  fh_reserved2 :: uint16_t
  fh_offset :: uint32_t

record BMPInfoHeader =
  ih_size :: uint32_t
  ih_width :: int32_t
  ih_height :: int32_t
  ih_planes :: uint16_t
  ih_bit_count :: uint16_t
  ih_compression :: uint32_t
  ih_size_image :: uint32_t
  ih_x_pixels_per_meter :: int32_t
  ih_y_pixels_per_meter :: int32_t
  ih_colors_used :: uint32_t
  ih_colors_important :: uint32_t

text \<open>The bytes of a packed struct in memory, which \<^verbatim>\<open>fwrite\<close> writes as they are.\<close>

definition le16 :: "uint16_t \<Rightarrow> byte list" where
  "le16 v = [ucast v, ucast (drop_bit 8 v)]"

definition le32 :: "uint32_t \<Rightarrow> byte list" where
  "le32 v = [ucast v, ucast (drop_bit 8 v), ucast (drop_bit 16 v), ucast (drop_bit 24 v)]"

definition fh_bytes :: "BMPFileHeader \<Rightarrow> byte list" where
  "fh_bytes fh =
     le16 (fh_type fh) @ le32 (fh_size fh) @ le16 (fh_reserved1 fh) @ le16 (fh_reserved2 fh)
     @ le32 (fh_offset fh)"

definition ih_bytes :: "BMPInfoHeader \<Rightarrow> byte list" where
  "ih_bytes ih =
     le32 (ih_size ih) @ le32 (ih_width ih) @ le32 (ih_height ih) @ le16 (ih_planes ih)
     @ le16 (ih_bit_count ih) @ le32 (ih_compression ih) @ le32 (ih_size_image ih)
     @ le32 (ih_x_pixels_per_meter ih) @ le32 (ih_y_pixels_per_meter ih)
     @ le32 (ih_colors_used ih) @ le32 (ih_colors_important ih)"

definition pixel_bytes :: "Pixel \<Rightarrow> byte list" where
  "pixel_bytes p = [blue p, green p, red p]"

text \<open>
  The struct that bytes in memory are, which is how \<^verbatim>\<open>fread\<close> fills one. \<open>rd16\<close> and
  \<open>rd32\<close> read a field at an offset; the two header readers are applied to the 14 and
  to the 40 bytes of a complete header only.
\<close>

definition rd16 :: "byte list \<Rightarrow> nat \<Rightarrow> uint16_t" where
  "rd16 bs k = or (ucast (bs ! k)) (push_bit 8 (ucast (bs ! (k + 1))))"

definition rd32 :: "byte list \<Rightarrow> nat \<Rightarrow> uint32_t" where
  "rd32 bs k =
     or (ucast (bs ! k))
       (or (push_bit 8 (ucast (bs ! (k + 1))))
         (or (push_bit 16 (ucast (bs ! (k + 2)))) (push_bit 24 (ucast (bs ! (k + 3))))))"

definition fh_of_bytes :: "byte list \<Rightarrow> BMPFileHeader" where
  "fh_of_bytes bs =
     \<lparr>fh_type = rd16 bs 0, fh_size = rd32 bs 2, fh_reserved1 = rd16 bs 6,
      fh_reserved2 = rd16 bs 8, fh_offset = rd32 bs 10\<rparr>"

definition ih_of_bytes :: "byte list \<Rightarrow> BMPInfoHeader" where
  "ih_of_bytes bs =
     \<lparr>ih_size = rd32 bs 0, ih_width = rd32 bs 4, ih_height = rd32 bs 8, ih_planes = rd16 bs 12,
      ih_bit_count = rd16 bs 14, ih_compression = rd32 bs 16, ih_size_image = rd32 bs 20,
      ih_x_pixels_per_meter = rd32 bs 24, ih_y_pixels_per_meter = rd32 bs 28,
      ih_colors_used = rd32 bs 32, ih_colors_important = rd32 bs 36\<rparr>"

fun pixels_of_bytes :: "byte list \<Rightarrow> Pixel list" where
  "pixels_of_bytes (b # g # r # bs) = \<lparr>blue = b, green = g, red = r\<rparr> # pixels_of_bytes bs"
| "pixels_of_bytes bs = []"

subsection \<open>The environment\<close>

text \<open>
  What the library cannot decide is a parameter: whether \<^verbatim>\<open>malloc\<close> of a number of
  bytes returns a block, and the indeterminate content of memory that was never
  written (a fresh heap block, a local header that \<^verbatim>\<open>fread\<close> did not fill).
\<close>

record sys =
  alloc_ok :: "nat \<Rightarrow> bool"
  junk_pixel :: "nat \<Rightarrow> Pixel"
  junk_fh :: BMPFileHeader
  junk_ih :: BMPInfoHeader

text \<open>\<^verbatim>\<open>(Pixel*)malloc(n)\<close>: a block of \<open>n div 3\<close> pixels, or \<^verbatim>\<open>NULL\<close>.\<close>

definition malloc_pixels :: "sys \<Rightarrow> size_t \<Rightarrow> Pixel list option" where
  "malloc_pixels env n =
     (if alloc_ok env (unat n) then Some (map (junk_pixel env) [0..<unat n div 3]) else None)"

subsection \<open>Reading a stream\<close>

text \<open>
  An open input stream is the content of its file and a position in it.
  \<open>fread_struct\<close> is \<^verbatim>\<open>fread(&s, n, 1, f)\<close> into a struct of \<open>n\<close> bytes that held the
  bytes \<open>before\<close>: the bytes that the file has from the position on, at most \<open>n\<close> of
  them, are consumed and stored at the start of the struct, and the rest of the struct
  keeps what it held. The result is the content of the struct and the new position. For
  a local variable without an initializer, as both headers are in \<^verbatim>\<open>bmp_load\<close>,
  \<open>before\<close> is indeterminate. (C leaves the value of an element that was read in part
  indeterminate; the C library copies the bytes it got, which is what is written here.)
  \<open>fread_pixels\<close> is \<^verbatim>\<open>fread(p, sizeof(Pixel), count, f)\<close>: the complete pixels that
  were read, at most \<open>count\<close>; the bytes of an incomplete last pixel are consumed and
  its place in memory stays indeterminate, as it is in a fresh block.
\<close>

definition fread_struct :: "byte list \<Rightarrow> nat \<Rightarrow> nat \<Rightarrow> byte list \<Rightarrow> byte list \<times> nat" where
  "fread_struct file pos n before =
     (let got = take n (drop pos file)
      in (got @ drop (length got) before, pos + length got))"

definition fread_pixels :: "byte list \<Rightarrow> nat \<Rightarrow> nat \<Rightarrow> Pixel list \<times> nat" where
  "fread_pixels file pos count =
     (let k = min count ((length file - pos) div 3)
      in (pixels_of_bytes (take (3 * k) (drop pos file)),
          pos + min (3 * count) (length file - pos)))"

subsection \<open>\<^verbatim>\<open>bmp_load\<close>\<close>

text \<open>
  What a call of \<^verbatim>\<open>bmp_load\<close> leaves behind: the pointer it returns, the value it
  stored through \<^verbatim>\<open>err_out\<close> (\<open>None\<close> when it stored nothing), whether it closed
  the stream, and how many heap blocks it allocated and how many of them it freed.
\<close>

record load_result =
  returned :: "BMPImage option"
  err :: "BMPError option"
  closed :: bool
  mallocs :: nat
  frees :: nat

text \<open>\<^verbatim>\<open>if(err_out) *err_out = e;\<close>\<close>

definition set_err :: "bool \<Rightarrow> BMPError \<Rightarrow> BMPError option" where
  "set_err err_out e = (if err_out then Some e else None)"

text \<open>
  One iteration of the row loop:
  \<^verbatim>\<open>fread(&img->data[i * img->width], sizeof(Pixel), img->width, filepath);
  fseek(filepath, padding, SEEK_CUR);\<close>
  The state is the pixel block and the position of the stream.
\<close>

definition load_row ::
  "byte list \<Rightarrow> c_int \<Rightarrow> c_int \<Rightarrow> int \<Rightarrow> Pixel list \<times> nat \<Rightarrow> (Pixel list \<times> nat) outcome" where
  "load_row file w padding i s =
     (case s of (buf, pos) \<Rightarrow>
        and_then (c_mul i (sint w)) (\<lambda>k.
          case fread_pixels file pos (unat (scast w :: size_t)) of (pixels, pos') \<Rightarrow>
            and_then (store_slice buf k pixels) (\<lambda>buf'.
              Returns (buf', pos' + nat (sint padding)))))"

text \<open>
  The argument \<open>filepath\<close> is what \<^verbatim>\<open>fopen(filename, "rb")\<close> returned: \<open>None\<close> for
  \<^verbatim>\<open>NULL\<close>, or the content of the file. \<open>err_out\<close> says whether that pointer is not
  null. The branch \<^verbatim>\<open>if(!filepath)\<close> stores \<^verbatim>\<open>BMP_ERR_FILE_NOT_FOUND\<close> and does not
  return, so that the next statement is \<^verbatim>\<open>fread(&fh, sizeof(BMPFileHeader), 1, filepath)\<close>
  on the null stream. The image struct is allocated with \<^verbatim>\<open>malloc(sizeof(BMPImage))\<close> and
  written without a check. The pixel block is requested with
  \<^verbatim>\<open>malloc(img->height * img->width * sizeof(Pixel))\<close>: a product of two \<^verbatim>\<open>int\<close>,
  converted to \<^verbatim>\<open>size_t\<close> and multiplied by 3.
\<close>

definition bmp_load :: "sys \<Rightarrow> byte list option \<Rightarrow> bool \<Rightarrow> load_result outcome" where
  "bmp_load env filepath err_out =
     (case filepath of
        None \<Rightarrow> Undefined NullPointer
      | Some file \<Rightarrow>
          (case fread_struct file 0 14 (fh_bytes (junk_fh env)) of (fhb, pos1) \<Rightarrow>
           case fread_struct file pos1 40 (ih_bytes (junk_ih env)) of (ihb, pos2) \<Rightarrow>
           let fh = fh_of_bytes fhb;
               ih = ih_of_bytes ihb
           in
             if fh_type fh \<noteq> 0x4D42 \<or> ih_bit_count ih \<noteq> 24 then
               Returns \<lparr>returned = None, err = set_err err_out BMP_ERR_INVALID_FORMAT,
                        closed = True, mallocs = 0, frees = 0\<rparr>
             else if \<not> alloc_ok env 16 then Undefined NullPointer
             else
               and_then (c_abs (sint (ih_height ih))) (\<lambda>h.
               and_then (c_mul h (sint (ih_width ih))) (\<lambda>n.
                 case malloc_pixels env (word_of_int n * 3) of
                   None \<Rightarrow>
                     Returns \<lparr>returned = None, err = set_err err_out BMP_ERR_MALLOC_FAILED,
                              closed = True, mallocs = 1, frees = 1\<rparr>
                 | Some block \<Rightarrow>
                     and_then
                       (c_for h (load_row file (ih_width ih) (calculate_padding (ih_width ih)))
                          (block, unat (fh_offset fh)))
                       (\<lambda>(buf, pos).
                          Returns \<lparr>returned = Some \<lparr>width = ih_width ih, height = word_of_int h,
                                                  data = Some buf\<rparr>,
                                   err = set_err err_out BMP_SUCCESS,
                                   closed = True, mallocs = 2, frees = 0\<rparr>)))))"

subsection \<open>\<^verbatim>\<open>bmp_save\<close>\<close>

text \<open>
  One iteration of the row loop:
  \<^verbatim>\<open>fwrite(&image->data[i * image->width], sizeof(Pixel), image->width, filepath);
  fwrite(padding_bytes, 1, padding, filepath);\<close>
  The state is the content of the file so far.
\<close>

definition save_row :: "BMPImage \<Rightarrow> c_int \<Rightarrow> int \<Rightarrow> byte list \<Rightarrow> byte list outcome" where
  "save_row img padding i out =
     and_then (c_mul i (sint (width img))) (\<lambda>k.
       case data img of
         None \<Rightarrow> Undefined NullPointer
       | Some buf \<Rightarrow>
           and_then (slice buf k (unat (scast (width img) :: size_t))) (\<lambda>row.
           and_then (slice [0, 0, 0 :: byte] 0 (unat (scast padding :: size_t))) (\<lambda>padding_bytes.
             Returns (out @ concat (map pixel_bytes row) @ padding_bytes))))"

text \<open>
  \<open>sink_opens\<close> says whether \<^verbatim>\<open>fopen(filename, "wb")\<close> returned a stream; the stream
  takes every byte written to it. The result is the error code and the content of the
  file that was written, if one was opened. \<^verbatim>\<open>image_size\<close> is computed in \<^verbatim>\<open>size_t\<close> and
  cut to 32 bits, as is the file size of the header.
\<close>

definition bmp_save :: "BMPImage option \<Rightarrow> bool \<Rightarrow> (BMPError \<times> byte list option) outcome" where
  "bmp_save imagep sink_opens =
     (if \<not> sink_opens then Returns (BMP_ERR_FILE_NOT_FOUND, None)
      else case imagep of
        None \<Rightarrow> Undefined NullPointer
      | Some img \<Rightarrow>
          let padding = calculate_padding (width img);
              image_size = (ucast ((scast (width img) * 3 + scast padding) * scast (height img)
                                   :: size_t) :: uint32_t);
              fh = \<lparr>fh_type = 0x4D42, fh_size = ucast ((14 :: size_t) + 40 + ucast image_size),
                    fh_reserved1 = 0, fh_reserved2 = 0, fh_offset = 54\<rparr>;
              ih = \<lparr>ih_size = 40, ih_width = width img, ih_height = height img, ih_planes = 1,
                    ih_bit_count = 24, ih_compression = 0, ih_size_image = image_size,
                    ih_x_pixels_per_meter = 2835, ih_y_pixels_per_meter = 2835,
                    ih_colors_used = 0, ih_colors_important = 0\<rparr>
          in and_then (c_for (sint (height img)) (save_row img padding) (fh_bytes fh @ ih_bytes ih))
               (\<lambda>out. Returns (BMP_SUCCESS, Some out)))"

text \<open>Saving an image to a file and loading that file.\<close>

definition save_then_load :: "sys \<Rightarrow> BMPImage option \<Rightarrow> bool \<Rightarrow> load_result outcome" where
  "save_then_load env imagep err_out =
     and_then (bmp_save imagep True) (\<lambda>(e, written). bmp_load env written err_out)"

subsection \<open>Pixel access\<close>

definition black :: Pixel where
  "black = \<lparr>blue = 0, green = 0, red = 0\<rparr>"

definition bmp_get_pixel :: "BMPImage option \<Rightarrow> c_int \<Rightarrow> c_int \<Rightarrow> Pixel outcome" where
  "bmp_get_pixel imagep x y =
     (case imagep of
        None \<Rightarrow> Returns black
      | Some img \<Rightarrow>
          (case data img of
             None \<Rightarrow> Returns black
           | Some buf \<Rightarrow>
               if sint x < 0 \<or> sint x \<ge> sint (width img) \<or> sint y < 0 \<or> sint y \<ge> sint (height img)
               then Returns black
               else
                 and_then (c_mul (sint y) (sint (width img))) (\<lambda>m.
                 and_then (c_add m (sint x)) (\<lambda>index.
                   load_at buf index))))"

text \<open>The result is the image that the pointer points to after the call.\<close>

definition bmp_set_pixel ::
  "BMPImage option \<Rightarrow> c_int \<Rightarrow> c_int \<Rightarrow> Pixel \<Rightarrow> BMPImage option outcome" where
  "bmp_set_pixel imagep x y color =
     (case imagep of
        None \<Rightarrow> Returns None
      | Some img \<Rightarrow>
          (case data img of
             None \<Rightarrow> Returns (Some img)
           | Some buf \<Rightarrow>
               if sint x < 0 \<or> sint x \<ge> sint (width img) \<or> sint y < 0 \<or> sint y \<ge> sint (height img)
               then Returns (Some img)
               else
                 and_then (c_mul (sint y) (sint (width img))) (\<lambda>m.
                 and_then (c_add m (sint x)) (\<lambda>index.
                 and_then (store_at buf index color) (\<lambda>buf'.
                   Returns (Some (img\<lparr>data := Some buf'\<rparr>)))))))"

subsection \<open>\<^verbatim>\<open>bmp_rotate_right\<close>\<close>

text \<open>
  The body of the inner loop:
  \<^verbatim>\<open>int new_index = (j * new_width) + (image->height - 1 - i);
  int old_index = (i * image->width) + j;
  new_data[new_index] = image->data[old_index];\<close>
\<close>

definition rotate_pixel ::
  "int \<Rightarrow> int \<Rightarrow> int \<Rightarrow> Pixel list \<Rightarrow> int \<Rightarrow> int \<Rightarrow> Pixel list \<Rightarrow> Pixel list outcome" where
  "rotate_pixel w h new_width old i j new_data =
     and_then (c_mul j new_width) (\<lambda>a.
     and_then (c_sub h 1) (\<lambda>b.
     and_then (c_sub b i) (\<lambda>c.
     and_then (c_add a c) (\<lambda>new_index.
     and_then (c_mul i w) (\<lambda>d.
     and_then (c_add d j) (\<lambda>old_index.
     and_then (load_at old old_index) (\<lambda>p.
       store_at new_data new_index p)))))))"

definition bmp_rotate_right :: "sys \<Rightarrow> BMPImage option \<Rightarrow> BMPImage option outcome" where
  "bmp_rotate_right env imagep =
     (case imagep of
        None \<Rightarrow> Returns None
      | Some img \<Rightarrow>
          (case data img of
             None \<Rightarrow> Returns (Some img)
           | Some old \<Rightarrow>
               let new_height = width img;
                   new_width = height img
               in
                 and_then (c_mul (sint new_width) (sint new_height)) (\<lambda>n.
                   case malloc_pixels env (word_of_int n * 3) of
                     None \<Rightarrow> Returns (Some img)
                   | Some block \<Rightarrow>
                       and_then
                         (c_for (sint (height img)) (\<lambda>i.
                            c_for (sint (width img))
                              (rotate_pixel (sint (width img)) (sint (height img)) (sint new_width)
                                 old i))
                            block)
                         (\<lambda>new_data.
                            Returns (Some \<lparr>width = new_width, height = new_height,
                                           data = Some new_data\<rparr>)))))"

subsection \<open>\<^verbatim>\<open>bmp_grayscale\<close>\<close>

text \<open>
  \<^verbatim>\<open>uint8_t avg = (red + green + blue) / 3;\<close> The three channels are promoted to
  \<^verbatim>\<open>int\<close>, so the sum does not wrap, and the quotient is below 256.
\<close>

definition avg_of :: "Pixel \<Rightarrow> byte" where
  "avg_of p = word_of_nat ((unat (red p) + unat (green p) + unat (blue p)) div 3)"

definition grayscale_pixel :: "int \<Rightarrow> Pixel list \<Rightarrow> Pixel list outcome" where
  "grayscale_pixel i buf =
     and_then (load_at buf i) (\<lambda>p.
       store_at buf i \<lparr>blue = avg_of p, green = avg_of p, red = avg_of p\<rparr>)"

text \<open>
  The bound \<^verbatim>\<open>image->height * image->width\<close> of the loop is computed before the first
  iteration and is the same before every other one.
\<close>

definition bmp_grayscale :: "BMPImage option \<Rightarrow> BMPImage option outcome" where
  "bmp_grayscale imagep =
     (case imagep of
        None \<Rightarrow> Returns None
      | Some img \<Rightarrow>
          (case data img of
             None \<Rightarrow> Returns (Some img)
           | Some buf \<Rightarrow>
               and_then (c_mul (sint (height img)) (sint (width img))) (\<lambda>n.
               and_then (c_for n grayscale_pixel buf) (\<lambda>buf'.
                 Returns (Some (img\<lparr>data := Some buf'\<rparr>))))))"

subsection \<open>Closed forms of what the loops compute\<close>

text \<open>
  The pixel that the three assignments of \<^verbatim>\<open>bmp_grayscale\<close> leave in a cell; the buffer
  that the two loops of \<^verbatim>\<open>bmp_rotate_right\<close> fill for an image of \<open>W\<close> columns and
  \<open>H\<close> rows (\<open>rotate_row\<close> is one pass of the inner loop), and the buffer after two
  rotations; the two headers that \<^verbatim>\<open>bmp_save\<close> writes, and the bytes of the row \<open>i\<close>
  of a file, the pixels followed by the padding bytes \<open>pad i\<close>. The lemmas below prove
  that the loops compute them.
\<close>

definition grayscale_of :: "Pixel \<Rightarrow> Pixel" where
  "grayscale_of p = \<lparr>blue = avg_of p, green = avg_of p, red = avg_of p\<rparr>"

definition rotate_row :: "nat \<Rightarrow> nat \<Rightarrow> 'a list \<Rightarrow> nat \<Rightarrow> 'a list \<Rightarrow> 'a list" where
  "rotate_row W H old i s = fold (\<lambda>j s. s[j * H + (H - 1 - i) := old ! (i * W + j)]) [0..<W] s"

definition rotated :: "nat \<Rightarrow> nat \<Rightarrow> 'a list \<Rightarrow> 'a list" where
  "rotated W H old = map (\<lambda>m. old ! ((H - 1 - m mod H) * W + m div H)) [0..<W * H]"

definition half_turn :: "nat \<Rightarrow> nat \<Rightarrow> 'a list \<Rightarrow> 'a list" where
  "half_turn W H old = map (\<lambda>m. old ! ((H - 1 - m div W) * W + (W - 1 - m mod W))) [0..<W * H]"

definition saved_fh :: "BMPImage \<Rightarrow> BMPFileHeader" where
  "saved_fh img =
     \<lparr>fh_type = 0x4D42,
      fh_size = ucast ((14 :: size_t) + 40
        + ucast (ucast ((scast (width img) * 3 + scast (calculate_padding (width img)))
                        * scast (height img) :: size_t) :: uint32_t)),
      fh_reserved1 = 0, fh_reserved2 = 0, fh_offset = 54\<rparr>"

definition saved_ih :: "BMPImage \<Rightarrow> BMPInfoHeader" where
  "saved_ih img =
     \<lparr>ih_size = 40, ih_width = width img, ih_height = height img, ih_planes = 1,
      ih_bit_count = 24, ih_compression = 0,
      ih_size_image = ucast ((scast (width img) * 3 + scast (calculate_padding (width img)))
                        * scast (height img) :: size_t),
      ih_x_pixels_per_meter = 2835, ih_y_pixels_per_meter = 2835,
      ih_colors_used = 0, ih_colors_important = 0\<rparr>"

definition row_bytes :: "nat \<Rightarrow> (nat \<Rightarrow> byte list) \<Rightarrow> Pixel list \<Rightarrow> nat \<Rightarrow> byte list" where
  "row_bytes W pad buf i = concat (map pixel_bytes (take W (drop (i * W) buf))) @ pad i"

subsection \<open>Sample values\<close>

text \<open>
  The four pixels and the 2 by 2 image of the end-to-end example; an image of 3 columns
  and 2 rows; an image of \<open>2 ^ 30\<close> columns and 2 rows, whose \<open>2 ^ 31\<close> pixels take
  6 GiB, and an image of \<open>2 ^ 16\<close> columns and rows, whose \<open>2 ^ 32\<close> pixels take 12 GiB;
  a system in which every allocation succeeds, one in which no allocation of more
  than 16 bytes does, and one in which the two local headers of \<^verbatim>\<open>bmp_load\<close> still
  hold what an earlier call left there, the headers of the 2 by 2 image.
\<close>

definition p0 :: Pixel where "p0 = \<lparr>blue = 10, green = 20, red = 30\<rparr>"

definition p1 :: Pixel where "p1 = \<lparr>blue = 40, green = 50, red = 60\<rparr>"

definition p2 :: Pixel where "p2 = \<lparr>blue = 70, green = 80, red = 90\<rparr>"

definition p3 :: Pixel where "p3 = \<lparr>blue = 100, green = 110, red = 120\<rparr>"

definition image_2x2 :: BMPImage where
  "image_2x2 = \<lparr>width = 2, height = 2, data = Some [p0, p1, p2, p3]\<rparr>"

definition image_3x2 :: BMPImage where
  "image_3x2 = \<lparr>width = 3, height = 2, data = Some [p0, p1, p2, p3, p0, p1]\<rparr>"

definition huge_image :: BMPImage where
  "huge_image = \<lparr>width = 1073741824, height = 2, data = Some (replicate 2147483648 p0)\<rparr>"

definition huge_square :: BMPImage where
  "huge_square = \<lparr>width = 65536, height = 65536, data = Some (replicate 4294967296 p0)\<rparr>"

definition env_ok :: sys where
  "env_ok = \<lparr>alloc_ok = (\<lambda>n. True), junk_pixel = (\<lambda>k. black),
     junk_fh = fh_of_bytes (replicate 14 0), junk_ih = ih_of_bytes (replicate 40 0)\<rparr>"

definition env_no_memory :: sys where
  "env_no_memory = env_ok\<lparr>alloc_ok := (\<lambda>n. n \<le> 16)\<rparr>"


section \<open>Properties\<close>

subsection \<open>Checked arithmetic, blocks and loops\<close>

lemma c_int_result_nonneg:
  "0 \<le> r \<Longrightarrow> r \<le> INT_MAX \<Longrightarrow> c_int_result r = Returns r"
  by (simp add: c_int_result_def INT_MIN_def)

lemma load_at_nat: "k < length buf \<Longrightarrow> load_at buf (int k) = Returns (buf ! k)"
  by (simp add: load_at_def)

lemma store_at_nat: "k < length buf \<Longrightarrow> store_at buf (int k) v = Returns (buf[k := v])"
  by (simp add: store_at_def)

lemma slice_nat: "k + n \<le> length buf \<Longrightarrow> slice buf (int k) n = Returns (take n (drop k buf))"
  by (simp add: slice_def)

lemma store_slice_nat:
  "k + length vs \<le> length buf \<Longrightarrow>
   store_slice buf (int k) vs = Returns (take k buf @ vs @ drop (k + length vs) buf)"
  by (simp add: store_slice_def)

text \<open>A loop whose body returns on every state that satisfies an invariant is a fold.\<close>

lemma for_loop_fold:
  assumes "\<And>j s. j0 \<le> j \<Longrightarrow> j < j0 + k \<Longrightarrow> P s \<Longrightarrow> body (int j) s = Returns (f j s) \<and> P (f j s)"
    and "P s"
  shows "for_loop k (int j0) body s = Returns (fold f [j0..<j0 + k] s) \<and> P (fold f [j0..<j0 + k] s)"
  using assms
proof (induction k arbitrary: j0 s)
  case 0
  then show ?case by simp
next
  case (Suc k)
  have b: "body (int j0) s = Returns (f j0 s)" and p: "P (f j0 s)"
    using Suc.prems(1) [of j0 s] Suc.prems(2) by simp_all
  have "for_loop k (int (Suc j0)) body (f j0 s)
          = Returns (fold f [Suc j0..<Suc j0 + k] (f j0 s))
        \<and> P (fold f [Suc j0..<Suc j0 + k] (f j0 s))"
  proof (rule Suc.IH)
    fix j s'
    assume "Suc j0 \<le> j" "j < Suc j0 + k" "P s'"
    then show "body (int j) s' = Returns (f j s') \<and> P (f j s')"
      using Suc.prems(1) [of j s'] by simp
  qed (rule p)
  moreover have "int j0 + 1 = int (Suc j0)" by simp
  moreover have "[j0..<j0 + Suc k] = j0 # [Suc j0..<Suc j0 + k]"
    by (simp add: upt_conv_Cons)
  ultimately show ?case
    by (simp only: for_loop.simps b and_then.simps fold_simps)
qed

lemma c_for_fold:
  assumes "\<And>j s. j < n \<Longrightarrow> P s \<Longrightarrow> body (int j) s = Returns (f j s) \<and> P (f j s)"
    and "P s"
  shows "c_for (int n) body s = Returns (fold f [0..<n] s) \<and> P (fold f [0..<n] s)"
  using for_loop_fold [of 0 n P body f s] assms by (simp add: c_for_def)

text \<open>The same with an invariant that depends on the counter.\<close>

lemma for_loop_invariant:
  assumes "\<And>j s. j0 \<le> j \<Longrightarrow> j < j0 + k \<Longrightarrow> P j s \<Longrightarrow> \<exists>s'. body (int j) s = Returns s' \<and> P (Suc j) s'"
    and "P j0 s"
  shows "\<exists>s'. for_loop k (int j0) body s = Returns s' \<and> P (j0 + k) s'"
  using assms
proof (induction k arbitrary: j0 s)
  case 0
  then show ?case by simp
next
  case (Suc k)
  obtain s1 where b: "body (int j0) s = Returns s1" and p: "P (Suc j0) s1"
    using Suc.prems(1) [of j0 s] Suc.prems(2) by auto
  have "\<exists>s'. for_loop k (int (Suc j0)) body s1 = Returns s' \<and> P (Suc j0 + k) s'"
  proof (rule Suc.IH)
    fix j s'
    assume "Suc j0 \<le> j" "j < Suc j0 + k" "P j s'"
    then show "\<exists>s''. body (int j) s' = Returns s'' \<and> P (Suc j) s''"
      using Suc.prems(1) [of j s'] by simp
  qed (rule p)
  moreover have "int j0 + 1 = int (Suc j0)" by simp
  ultimately show ?case
    by (simp only: for_loop.simps b and_then.simps) simp
qed

lemma image_surjective: "\<lparr>width = width img, height = height img, data = data img\<rparr> = (img :: BMPImage)"
  by (cases img) simp

lemma nat_dims:
  assumes "0 < w" "0 < h" "int n = w * h"
  shows "w = int (nat w)" "h = int (nat h)" "n = nat w * nat h"
  using assms by (simp_all add: nat_mult_distrib [symmetric])

lemma nat_dims0:
  assumes "0 \<le> w" "0 \<le> h" "int n = w * h"
  shows "w = int (nat w)" "h = int (nat h)" "n = nat w * nat h"
  using assms by (simp_all add: nat_mult_distrib [symmetric])

lemma cell_less:
  fixes i j W H :: nat
  assumes "i < H" "j < W"
  shows "i * W + j < W * H"
proof -
  have "i * W + j < i * W + W" using assms by simp
  also have "\<dots> = (i + 1) * W" by simp
  also have "\<dots> \<le> H * W" using assms by (intro mult_le_mono1) simp
  finally show ?thesis by (simp add: mult.commute)
qed

lemma row_fits:
  fixes i W H :: nat
  assumes "i < H"
  shows "i * W + W \<le> W * H"
  using assms by (metis Suc_leI mult_Suc mult_le_mono1 mult.commute add.commute)

subsection \<open>Padding\<close>

lemma uint_scast_size_t: "uint (scast (w :: c_int) :: size_t) = sint w mod 2 ^ 64"
proof -
  have "uint (scast w :: size_t) = take_bit 64 (sint (scast w :: size_t))"
    by (simp add: uint_sint)
  also have "sint (scast w :: size_t) = sint w"
    by (rule sint_up_scast) (simp add: is_up)
  finally show ?thesis by (simp only: take_bit_eq_mod)
qed

lemma mod_2_64_mod_4: "(x mod 2 ^ 64) mod 4 = (x::int) mod 4"
  by (rule mod_mod_cancel) simp

lemma padding_uint:
  "uint (((4::size_t) - (scast (w::c_int) * 3) mod 4) mod 4) = (4 - (sint w * 3) mod 4) mod 4"
proof -
  let ?b = "(scast w * 3 :: size_t) mod 4"
  have "uint ?b = ((sint w mod 2 ^ 64 * 3) mod 2 ^ 64) mod 4"
    by (simp only: uint_mod uint_word_ariths uint_scast_size_t) simp
  also have "\<dots> = (sint w mod 2 ^ 64 * 3) mod 4"
    by (rule mod_2_64_mod_4)
  also have "\<dots> = (sint w * 3) mod 4"
    by (metis mod_2_64_mod_4 mod_mult_left_eq)
  finally have a: "uint ?b = (sint w * 3) mod 4" .
  have "uint (((4::size_t) - ?b) mod 4) = uint ((4::size_t) - ?b) mod 4"
    by (simp add: uint_mod)
  also have "uint ((4::size_t) - ?b) = (4 - uint ?b) mod 2 ^ 64"
    by (simp add: uint_word_ariths)
  finally show ?thesis
    by (simp only: mod_2_64_mod_4 a)
qed

lemma sint_calculate_padding:
  "sint (calculate_padding w) = (4 - (sint w * 3) mod 4) mod 4"
proof -
  let ?p = "((4::size_t) - (scast w * 3) mod 4) mod 4"
  have b: "uint ?p < 4" unfolding padding_uint by simp
  have "sint (ucast ?p :: c_int) = signed_take_bit 31 (uint ?p)"
    by (simp add: signed_ucast_eq)
  also have "\<dots> = uint ?p"
  proof (rule signed_take_bit_int_eq_self)
    show "- (2 ^ 31) \<le> uint ?p"
      by (rule order_trans [OF _ uint_nonnegative]) simp
    show "uint ?p < 2 ^ 31"
      using b by simp
  qed
  finally show ?thesis by (simp only: calculate_padding_def padding_uint)
qed

lemma unat_scast_size_t:
  assumes "0 \<le> sint (w :: c_int)"
  shows "unat (scast w :: size_t) = nat (sint w)"
proof -
  have "sint w < 2 ^ 31" using sint_lt [of w] by simp
  then have "sint w < 2 ^ 64" by (rule less_le_trans) simp
  then have "sint w mod 2 ^ 64 = sint w"
    using assms by (intro mod_pos_pos_trivial)
  then have "uint (scast w :: size_t) = sint w"
    by (simp only: uint_scast_size_t)
  then show ?thesis by (simp only: unat_eq_nat_uint)
qed

lemma padding_nat:
  "unat (scast (calculate_padding w) :: size_t) = nat (sint (calculate_padding w))"
  "nat (sint (calculate_padding w)) \<le> 3"
  by (simp_all add: unat_scast_size_t sint_calculate_padding)

subsection \<open>Pixel access\<close>

lemma pixel_index:
  fixes x y w h :: int
  assumes "0 \<le> x" "x < w" "0 \<le> y" "y < h"
  shows "0 \<le> y * w" "y * w \<le> y * w + x" "0 \<le> y * w + x" "y * w + x < w * h"
proof -
  from assms have w: "0 < w" by simp
  show a: "0 \<le> y * w" using assms w by simp
  show "y * w \<le> y * w + x" using assms by simp
  show "0 \<le> y * w + x" using a assms by simp
  have "y + 1 \<le> h" using assms by simp
  then have "(y + 1) * w \<le> h * w" using w by (simp only: mult_right_mono less_imp_le)
  then show "y * w + x < w * h" using assms by (simp add: algebra_simps)
qed

lemma c_mul_add_index:
  assumes "0 \<le> x" "x < w" "0 \<le> y"
  shows "and_then (c_mul y w) (\<lambda>m. and_then (c_add m x) f) = and_then (c_int_result (y * w + x)) f"
proof (cases "y * w + x \<le> INT_MAX")
  case True
  have "0 \<le> y * w" using assms by simp
  moreover have "y * w \<le> y * w + x" using assms by simp
  ultimately have "c_mul y w = Returns (y * w)" "c_add (y * w) x = c_int_result (y * w + x)"
    using True by (simp_all only: c_mul_def c_add_def c_int_result_nonneg)
  then show ?thesis by simp
next
  case False
  have a: "0 \<le> y * w" using assms by simp
  have r: "c_int_result (y * w + x) = Undefined SignedOverflow"
    using False by (simp add: c_int_result_def)
  show ?thesis
  proof (cases "y * w \<le> INT_MAX")
    case True
    then have "c_mul y w = Returns (y * w)"
      using a by (simp only: c_mul_def c_int_result_nonneg)
    then show ?thesis by (simp add: c_add_def r)
  next
    case False
    then have "c_mul y w = Undefined SignedOverflow"
      by (simp add: c_mul_def c_int_result_def)
    then show ?thesis by (simp add: r)
  qed
qed

lemma get_in_bounds:
  assumes "data img = Some buf"
    and "0 \<le> sint x" "sint x < sint (width img)" "0 \<le> sint y" "sint y < sint (height img)"
  shows "bmp_get_pixel (Some img) x y =
           and_then (c_int_result (sint y * sint (width img) + sint x)) (load_at buf)"
proof -
  have "bmp_get_pixel (Some img) x y =
          and_then (c_mul (sint y) (sint (width img))) (\<lambda>m.
            and_then (c_add m (sint x)) (load_at buf))"
    using assms by (simp add: bmp_get_pixel_def)
  then show ?thesis
    using assms by (simp only: c_mul_add_index)
qed

lemma set_in_bounds:
  assumes "data img = Some buf"
    and "0 \<le> sint x" "sint x < sint (width img)" "0 \<le> sint y" "sint y < sint (height img)"
  shows "bmp_set_pixel (Some img) x y color =
           and_then (c_int_result (sint y * sint (width img) + sint x)) (\<lambda>index.
           and_then (store_at buf index color) (\<lambda>buf'. Returns (Some (img\<lparr>data := Some buf'\<rparr>))))"
proof -
  have "bmp_set_pixel (Some img) x y color =
          and_then (c_mul (sint y) (sint (width img))) (\<lambda>m.
            and_then (c_add m (sint x)) (\<lambda>index.
              and_then (store_at buf index color) (\<lambda>buf'. Returns (Some (img\<lparr>data := Some buf'\<rparr>)))))"
    using assms by (simp add: bmp_set_pixel_def)
  then show ?thesis
    using assms by (simp only: c_mul_add_index)
qed

text \<open>
  C9. When the image pointer is null, or the image's pixel buffer is null,
  \<open>bmp_get_pixel\<close> returns the black pixel for every pair of coordinates, and
  \<open>bmp_set_pixel\<close> changes nothing, for every pair of coordinates and every colour.
\<close>

theorem null_image_access:
  "bmp_get_pixel None x y = Returns black
   \<and> bmp_set_pixel None x y color = Returns None
   \<and> (data img = None \<longrightarrow>
        bmp_get_pixel (Some img) x y = Returns black
        \<and> bmp_set_pixel (Some img) x y color = Returns (Some img))"
  by (simp add: bmp_get_pixel_def bmp_set_pixel_def)

theorem null_image_access_witness:
  "data \<lparr>width = 2, height = 2, data = None\<rparr> = None
   \<and> bmp_get_pixel (Some \<lparr>width = 2, height = 2, data = None\<rparr>) 1 1 = Returns black
   \<and> bmp_set_pixel (Some \<lparr>width = 2, height = 2, data = None\<rparr>) 1 1 \<lparr>blue = 1, green = 2, red = 3\<rparr>
       = Returns (Some \<lparr>width = 2, height = 2, data = None\<rparr>)"
  using null_image_access [of 1 1 "\<lparr>blue = 1, green = 2, red = 3\<rparr>" "\<lparr>width = 2, height = 2, data = None\<rparr>"]
  by simp



lemma set_pixel_in_buffer:
  assumes "data img = Some buf"
    and "0 \<le> sint x" "sint x < sint (width img)" "0 \<le> sint y" "sint y < sint (height img)"
    and "sint y * sint (width img) + sint x \<le> INT_MAX"
    and "sint y * sint (width img) + sint x < int (length buf)"
  shows "bmp_set_pixel (Some img) x y color
           = Returns (Some (img\<lparr>data := Some (buf[nat (sint y * sint (width img) + sint x) := color])\<rparr>))
         \<and> length (buf[nat (sint y * sint (width img) + sint x) := color]) = length buf
         \<and> (\<forall>k. k \<noteq> nat (sint y * sint (width img) + sint x) \<longrightarrow>
                buf[nat (sint y * sint (width img) + sint x) := color] ! k = buf ! k)
         \<and> bmp_get_pixel
              (Some (img\<lparr>data := Some (buf[nat (sint y * sint (width img) + sint x) := color])\<rparr>)) x y
             = Returns color"
proof -
  define index where "index = sint y * sint (width img) + sint x"
  have nn: "0 \<le> index"
    unfolding index_def using assms by (simp add: pixel_index)
  have le: "index \<le> INT_MAX" and lt: "index < int (length buf)"
    unfolding index_def using assms by simp_all
  have r: "c_int_result index = Returns index"
    using nn le by (simp only: c_int_result_nonneg)
  have "bmp_set_pixel (Some img) x y color =
           and_then (c_int_result index) (\<lambda>index.
           and_then (store_at buf index color) (\<lambda>buf'. Returns (Some (img\<lparr>data := Some buf'\<rparr>))))"
    unfolding index_def using assms by (simp only: set_in_bounds)
  then have s: "bmp_set_pixel (Some img) x y color
            = Returns (Some (img\<lparr>data := Some (buf[nat index := color])\<rparr>))"
    using nn lt by (simp add: r store_at_def)
  let ?img' = "img\<lparr>data := Some (buf[nat index := color])\<rparr>"
  have "bmp_get_pixel (Some ?img') x y
          = and_then (c_int_result (sint y * sint (width ?img') + sint x))
              (load_at (buf[nat index := color]))"
    by (rule get_in_bounds) (use assms in simp_all)
  then have "bmp_get_pixel (Some ?img') x y
          = and_then (c_int_result index) (load_at (buf[nat index := color]))"
    by (simp add: index_def)
  then have g: "bmp_get_pixel (Some (img\<lparr>data := Some (buf[nat index := color])\<rparr>)) x y
          = Returns color"
    using nn lt by (simp add: r load_at_def)
  show ?thesis
    using s g unfolding index_def by simp
qed

text \<open>
  C10, as amended. For every image with a buffer of \<open>width * height\<close> pixels and every
  pair of coordinates inside the bounds whose index \<open>y * width + x\<close> is at most
  \<open>INT_MAX\<close>, \<open>bmp_set_pixel\<close> returns the image with the same width and height and with
  the buffer changed at that index only, where it holds the colour, and \<open>bmp_get_pixel\<close>
  at the same coordinates then returns the colour.
\<close>

theorem set_pixel_frame:
  assumes "data img = Some buf"
    and "int (length buf) = sint (width img) * sint (height img)"
    and "0 \<le> sint x" "sint x < sint (width img)" "0 \<le> sint y" "sint y < sint (height img)"
    and "sint y * sint (width img) + sint x \<le> INT_MAX"
  shows "bmp_set_pixel (Some img) x y color
           = Returns (Some (img\<lparr>data := Some (buf[nat (sint y * sint (width img) + sint x) := color])\<rparr>))
         \<and> length (buf[nat (sint y * sint (width img) + sint x) := color]) = length buf
         \<and> (\<forall>k. k \<noteq> nat (sint y * sint (width img) + sint x) \<longrightarrow>
                buf[nat (sint y * sint (width img) + sint x) := color] ! k = buf ! k)
         \<and> bmp_get_pixel
              (Some (img\<lparr>data := Some (buf[nat (sint y * sint (width img) + sint x) := color])\<rparr>)) x y
             = Returns color"
proof (rule set_pixel_in_buffer [OF assms(1) assms(3-6) assms(7)])
  show "sint y * sint (width img) + sint x < int (length buf)"
    using pixel_index(4) [OF assms(3-6)] assms(2) by simp
qed

theorem set_pixel_frame_witness:
  "bmp_set_pixel (Some image_2x2) 1 0 p3
     = Returns (Some \<lparr>width = 2, height = 2, data = Some [p0, p3, p2, p3]\<rparr>)
   \<and> bmp_get_pixel (Some \<lparr>width = 2, height = 2, data = Some [p0, p3, p2, p3]\<rparr>) 1 0 = Returns p3"
  using set_pixel_frame [of image_2x2 "[p0, p1, p2, p3]" 1 0 p3]
  by (simp add: image_2x2_def INT_MAX_def)

text \<open>
  The claim as stated, for every image, fails on an image whose buffer is null, where
  \<open>bmp_set_pixel\<close> does nothing and \<open>bmp_get_pixel\<close> returns black, and on an image of
  \<open>2 ^ 30\<close> columns and 3 rows with all its \<open>3 * 2 ^ 30\<close> pixels, where
  \<^verbatim>\<open>y * image->width\<close> overflows at \<open>y = 2\<close>.
\<close>

theorem set_pixel_frame_counterexample:
  "bmp_set_pixel (Some \<lparr>width = 2, height = 2, data = None\<rparr>) 0 0 p0
     = Returns (Some \<lparr>width = 2, height = 2, data = None\<rparr>)
   \<and> bmp_get_pixel (Some \<lparr>width = 2, height = 2, data = None\<rparr>) 0 0 = Returns black
   \<and> black \<noteq> p0
   \<and> int (length (replicate 3221225472 p0)) = sint (1073741824 :: c_int) * sint (3 :: c_int)
   \<and> 0 \<le> sint (0 :: c_int) \<and> sint (0 :: c_int) < sint (1073741824 :: c_int)
   \<and> 0 \<le> sint (2 :: c_int) \<and> sint (2 :: c_int) < sint (3 :: c_int)
   \<and> bmp_set_pixel
        (Some \<lparr>width = 1073741824, height = 3, data = Some (replicate 3221225472 p0)\<rparr>)
        0 2 p0
      = Undefined SignedOverflow"
  by (simp add: bmp_set_pixel_def bmp_get_pixel_def c_mul_def c_int_result_def INT_MAX_def
      INT_MIN_def black_def p0_def)

subsection \<open>\<^verbatim>\<open>bmp_grayscale\<close>\<close>

lemma grayscale_pixel_Returns:
  "j < length s \<Longrightarrow> grayscale_pixel (int j) s = Returns (s[j := grayscale_of (s ! j)])"
  by (simp add: grayscale_pixel_def load_at_def store_at_def grayscale_of_def)

lemma fold_update_map:
  "n \<le> length s \<Longrightarrow>
   fold (\<lambda>j s. s[j := g (s ! j)]) [0..<n] s = map g (take n s) @ drop n s"
proof (induction n)
  case 0
  then show ?case by simp
next
  case (Suc n)
  then have n: "n < length s" by simp
  have "fold (\<lambda>j s. s[j := g (s ! j)]) [0..<Suc n] s
          = (map g (take n s) @ drop n s)[n := g ((map g (take n s) @ drop n s) ! n)]"
    using Suc by simp
  also have "(map g (take n s) @ drop n s) ! n = s ! n"
    using n by (simp add: nth_append)
  also have "(map g (take n s) @ drop n s)[n := g (s ! n)]
               = map g (take n s) @ (drop n s)[0 := g (s ! n)]"
    using n by (simp add: list_update_append)
  also have "(drop n s)[0 := g (s ! n)] = g (s ! n) # drop (Suc n) s"
    using n by (simp add: Cons_nth_drop_Suc [symmetric])
  also have "map g (take n s) @ g (s ! n) # drop (Suc n) s = map g (take (Suc n) s) @ drop (Suc n) s"
    using n by (simp add: take_Suc_conv_app_nth)
  finally show ?case .
qed

lemma unat_avg_of:
  "unat (avg_of p) = (unat (red p) + unat (green p) + unat (blue p)) div 3"
proof -
  have "unat (red p) < 256" "unat (green p) < 256" "unat (blue p) < 256"
    using unsigned_less [of "red p", where 'a = nat] unsigned_less [of "green p", where 'a = nat]
      unsigned_less [of "blue p", where 'a = nat] by simp_all
  then have "(unat (red p) + unat (green p) + unat (blue p)) div 3 < 256"
    by simp
  then show ?thesis
    by (simp add: avg_of_def unat_of_nat)
qed

lemma avg_of_grayscale_of: "avg_of (grayscale_of p) = avg_of p"
proof -
  have "avg_of (grayscale_of p) = word_of_nat ((unat (avg_of p) + unat (avg_of p) + unat (avg_of p)) div 3)"
    by (simp add: grayscale_of_def) (simp add: avg_of_def [of "\<lparr>blue = avg_of p, green = avg_of p, red = avg_of p\<rparr>"])
  also have "(unat (avg_of p) + unat (avg_of p) + unat (avg_of p)) div 3 = unat (avg_of p)"
    by arith
  finally show ?thesis by simp
qed

lemma grayscale_of_idem: "grayscale_of (grayscale_of p) = grayscale_of p"
  by (simp add: grayscale_of_def [of "grayscale_of p"] avg_of_grayscale_of) (simp add: grayscale_of_def)

lemma bmp_grayscale_map:
  assumes "data img = Some buf"
    and "int (length buf) = sint (height img) * sint (width img)"
    and "sint (height img) * sint (width img) \<le> INT_MAX"
  shows "bmp_grayscale (Some img) = Returns (Some (img\<lparr>data := Some (map grayscale_of buf)\<rparr>))"
proof -
  have "c_int_result (int (length buf)) = Returns (int (length buf))"
    using assms by (intro c_int_result_nonneg) simp_all
  then have m: "c_mul (sint (height img)) (sint (width img)) = Returns (int (length buf))"
    using assms by (simp add: c_mul_def)
  have "c_for (int (length buf)) grayscale_pixel buf
          = Returns (fold (\<lambda>j s. s[j := grayscale_of (s ! j)]) [0..<length buf] buf)
        \<and> length (fold (\<lambda>j s. s[j := grayscale_of (s ! j)]) [0..<length buf] buf) = length buf"
    by (rule c_for_fold [where P = "\<lambda>s. length s = length buf"])
      (simp_all add: grayscale_pixel_Returns)
  then have "c_for (int (length buf)) grayscale_pixel buf = Returns (map grayscale_of buf)"
    by (simp add: fold_update_map)
  then show ?thesis
    using assms(1) by (simp add: bmp_grayscale_def m)
qed

text \<open>
  C7, as amended. \<open>bmp_grayscale\<close> does nothing to a null image and to an image whose
  buffer is null. For every image whose buffer has exactly \<open>width * height\<close> pixels,
  where \<open>width * height\<close> is at most \<open>INT_MAX\<close>, it replaces every pixel \<open>p\<close> by
  \<open>grayscale_of p\<close>, whose three channels are the quotient of \<open>red + green + blue\<close> by
  3, rounded down; and \<open>bmp_grayscale\<close> of the result returns the result unchanged.
\<close>

theorem grayscale_idempotent:
  "bmp_grayscale None = Returns None
   \<and> (data img = None \<longrightarrow> bmp_grayscale (Some img) = Returns (Some img))
   \<and> (data img = Some buf
        \<and> int (length buf) = sint (width img) * sint (height img)
        \<and> sint (width img) * sint (height img) \<le> INT_MAX \<longrightarrow>
          bmp_grayscale (Some img) = Returns (Some (img\<lparr>data := Some (map grayscale_of buf)\<rparr>))
          \<and> bmp_grayscale (Some (img\<lparr>data := Some (map grayscale_of buf)\<rparr>))
              = Returns (Some (img\<lparr>data := Some (map grayscale_of buf)\<rparr>)))
   \<and> unat (blue (grayscale_of p)) = (unat (red p) + unat (green p) + unat (blue p)) div 3
   \<and> unat (green (grayscale_of p)) = (unat (red p) + unat (green p) + unat (blue p)) div 3
   \<and> unat (red (grayscale_of p)) = (unat (red p) + unat (green p) + unat (blue p)) div 3"
proof (intro conjI impI)
  show "bmp_grayscale None = Returns None"
    by (simp add: bmp_grayscale_def)
next
  assume "data img = None"
  then show "bmp_grayscale (Some img) = Returns (Some img)"
    by (simp add: bmp_grayscale_def)
next
  assume a: "data img = Some buf
        \<and> int (length buf) = sint (width img) * sint (height img)
        \<and> sint (width img) * sint (height img) \<le> INT_MAX"
  let ?img' = "img\<lparr>data := Some (map grayscale_of buf)\<rparr>"
  show 1: "bmp_grayscale (Some img) = Returns (Some ?img')"
    using a by (intro bmp_grayscale_map) (simp_all add: mult.commute)
  have "bmp_grayscale (Some ?img')
          = Returns (Some (?img'\<lparr>data := Some (map grayscale_of (map grayscale_of buf))\<rparr>))"
    using a by (intro bmp_grayscale_map) (simp_all add: mult.commute)
  then show "bmp_grayscale (Some ?img') = Returns (Some ?img')"
    by (simp add: grayscale_of_idem)
qed (simp_all add: grayscale_of_def unat_avg_of)

theorem grayscale_idempotent_witness:
  "bmp_grayscale (Some \<lparr>width = 2, height = 1, data = None\<rparr>)
     = Returns (Some \<lparr>width = 2, height = 1, data = None\<rparr>)
   \<and> bmp_grayscale (Some \<lparr>width = 2, height = 1,
       data = Some [\<lparr>blue = 10, green = 20, red = 30\<rparr>, \<lparr>blue = 255, green = 255, red = 254\<rparr>]\<rparr>)
     = Returns (Some \<lparr>width = 2, height = 1,
         data = Some [\<lparr>blue = 20, green = 20, red = 20\<rparr>, \<lparr>blue = 254, green = 254, red = 254\<rparr>]\<rparr>)
   \<and> bmp_grayscale (Some \<lparr>width = 2, height = 1,
         data = Some [\<lparr>blue = 20, green = 20, red = 20\<rparr>, \<lparr>blue = 254, green = 254, red = 254\<rparr>]\<rparr>)
     = Returns (Some \<lparr>width = 2, height = 1,
         data = Some [\<lparr>blue = 20, green = 20, red = 20\<rparr>, \<lparr>blue = 254, green = 254, red = 254\<rparr>]\<rparr>)"
  using grayscale_idempotent [of "\<lparr>width = 2, height = 1, data = None\<rparr>"]
    grayscale_idempotent [of "\<lparr>width = 2, height = 1,
       data = Some [\<lparr>blue = 10, green = 20, red = 30\<rparr>, \<lparr>blue = 255, green = 255, red = 254\<rparr>]\<rparr>"
       "[\<lparr>blue = 10, green = 20, red = 30\<rparr>, \<lparr>blue = 255, green = 255, red = 254\<rparr>]"]
  by (simp add: INT_MAX_def grayscale_of_def avg_of_def)


text \<open>
  The claim as stated, for every image, fails on the image of \<open>2 ^ 30\<close> columns and 2
  rows with all its pixels: the bound \<^verbatim>\<open>image->height * image->width\<close> of the loop
  overflows.
\<close>

theorem grayscale_counterexample:
  "data huge_image = Some (replicate 2147483648 p0)
   \<and> 0 < sint (width huge_image) \<and> 0 < sint (height huge_image)
   \<and> int (length (replicate 2147483648 p0)) = sint (width huge_image) * sint (height huge_image)
   \<and> bmp_grayscale (Some huge_image) = Undefined SignedOverflow"
  by (simp add: huge_image_def bmp_grayscale_def c_mul_def c_int_result_def INT_MAX_def INT_MIN_def)

subsection \<open>\<^verbatim>\<open>bmp_rotate_right\<close>\<close>

lemma rotate_pixel_Returns:
  assumes "i < H" "j < W" "length old = W * H" "length new = W * H" "int (W * H) \<le> INT_MAX"
  shows "rotate_pixel (int W) (int H) (int H) old (int i) (int j) new
           = Returns (new[j * H + (H - 1 - i) := old ! (i * W + j)])"
proof -
  have n: "j * H + (H - 1 - i) < W * H"
    using cell_less [of j W "H - 1 - i" H] assms by (simp add: mult.commute)
  have o: "i * W + j < W * H"
    using cell_less [of i H j W] assms by simp
  have jH: "j * H \<le> W * H" using n by linarith
  have iW: "i * W \<le> W * H" using o by linarith
  have r: "c_int_result (int k) = Returns (int k)" if "k \<le> W * H" for k
  proof (rule c_int_result_nonneg)
    show "int k \<le> INT_MAX" using that assms(5) by linarith
  qed simp
  have "H \<le> W * H" using assms(2) by (cases W) simp_all
  then have l1: "H - 1 \<le> W * H" and l2: "H - 1 - i \<le> W * H" by linarith+
  have l3: "j * H + (H - 1 - i) \<le> W * H" and l4: "i * W + j \<le> W * H"
    using n o by simp_all
  have H1: "int H - 1 = int (H - 1)" using assms by simp
  have H2: "int (H - 1) - int i = int (H - 1 - i)" using assms by simp
  have a: "c_mul (int j) (int H) = Returns (int (j * H))"
    unfolding c_mul_def of_nat_mult [symmetric] by (rule r [OF jH])
  have b: "c_sub (int H) 1 = Returns (int (H - 1))"
    unfolding c_sub_def H1 by (rule r [OF l1])
  have c: "c_sub (int (H - 1)) (int i) = Returns (int (H - 1 - i))"
    unfolding c_sub_def H2 by (rule r [OF l2])
  have d: "c_add (int (j * H)) (int (H - 1 - i)) = Returns (int (j * H + (H - 1 - i)))"
    unfolding c_add_def of_nat_add [symmetric] by (rule r [OF l3])
  have e: "c_mul (int i) (int W) = Returns (int (i * W))"
    unfolding c_mul_def of_nat_mult [symmetric] by (rule r [OF iW])
  have f: "c_add (int (i * W)) (int j) = Returns (int (i * W + j))"
    unfolding c_add_def of_nat_add [symmetric] by (rule r [OF l4])
  have g: "load_at old (int (i * W + j)) = Returns (old ! (i * W + j))"
    by (rule load_at_nat) (use o assms(3) in simp)
  have h: "store_at new (int (j * H + (H - 1 - i))) p = Returns (new[j * H + (H - 1 - i) := p])" for p
    by (rule store_at_nat) (use n assms(4) in simp)
  show ?thesis
    by (simp only: rotate_pixel_def a b c d e f g h and_then.simps)
qed

text \<open>The cell that is written for the source row \<open>i\<close> and column \<open>j\<close>.\<close>

lemma cell_eq_iff:
  fixes m j c H :: nat
  assumes "c < H"
  shows "m = j * H + c \<longleftrightarrow> m div H = j \<and> m mod H = c"
proof
  assume "m = j * H + c"
  then show "m div H = j \<and> m mod H = c" using assms by simp
next
  assume "m div H = j \<and> m mod H = c"
  then have "j * H + c = m div H * H + m mod H" by simp
  then show "m = j * H + c" by simp
qed

lemma inner_fold_nth:
  assumes "c < H" "m < length s"
  shows "n * H \<le> length s \<Longrightarrow>
    fold (\<lambda>j s. s[j * H + c := g j]) [0..<n] s ! m
      = (if m mod H = c \<and> m div H < n then g (m div H) else s ! m)"
proof (induction n)
  case 0
  then show ?case by simp
next
  case (Suc n)
  let ?t = "fold (\<lambda>j s. s[j * H + c := g j]) [0..<n] s"
  have len: "length ?t = length s"
    by (induction n) simp_all
  have ih: "?t ! m = (if m mod H = c \<and> m div H < n then g (m div H) else s ! m)"
    using Suc by simp
  have "fold (\<lambda>j s. s[j * H + c := g j]) [0..<Suc n] s ! m = (?t[n * H + c := g n]) ! m"
    by simp
  also have "\<dots> = (if m = n * H + c then g n else ?t ! m)"
    using assms(2) len by (simp add: nth_list_update)
  also have "\<dots> = (if m mod H = c \<and> m div H < Suc n then g (m div H) else s ! m)"
    using cell_eq_iff [OF assms(1), of m n] ih by (auto simp: less_Suc_eq)
  finally show ?case .
qed

lemma inner_fold_length:
  "length (fold (\<lambda>j s. s[j * H + c := g j]) [0..<n] s) = length s"
  by (induction n) simp_all

lemma rotate_row_length: "length (rotate_row W H old i s) = length s"
  by (simp add: rotate_row_def inner_fold_length)

lemma rotate_row_nth:
  assumes "i < H" "m < W * H" "length s = W * H"
  shows "rotate_row W H old i s ! m
           = (if m mod H = H - 1 - i then old ! (i * W + m div H) else s ! m)"
proof -
  have "m div H < W"
    using assms by (simp add: less_mult_imp_div_less mult.commute)
  then show ?thesis
    unfolding rotate_row_def
    using inner_fold_nth [of "H - 1 - i" H m s W "\<lambda>j. old ! (i * W + j)"] assms
    by (simp add: mult.commute)
qed

lemma outer_fold_length:
  "length (fold (rotate_row W H old) [0..<n] s) = length s"
  by (induction n) (simp_all add: rotate_row_length)

lemma outer_fold_nth:
  assumes "m < W * H" "length s = W * H"
  shows "n \<le> H \<Longrightarrow>
    fold (rotate_row W H old) [0..<n] s ! m
      = (if H - 1 - m mod H < n then old ! ((H - 1 - m mod H) * W + m div H) else s ! m)"
proof (induction n)
  case 0
  then show ?case by simp
next
  case (Suc n)
  let ?t = "fold (rotate_row W H old) [0..<n] s"
  have H: "0 < H" using Suc.prems by simp
  then have mH: "m mod H < H" by simp
  have "fold (rotate_row W H old) [0..<Suc n] s ! m = rotate_row W H old n ?t ! m"
    by simp
  also have "\<dots> = (if m mod H = H - 1 - n then old ! (n * W + m div H) else ?t ! m)"
    using Suc.prems assms by (intro rotate_row_nth) (simp_all add: outer_fold_length)
  also have "\<dots> = (if H - 1 - m mod H < Suc n then old ! ((H - 1 - m mod H) * W + m div H) else s ! m)"
  proof (cases "m mod H = H - 1 - n")
    case True
    then have "H - 1 - m mod H = n" using Suc.prems by simp
    then show ?thesis using True by simp
  next
    case False
    then have "H - 1 - m mod H \<noteq> n" using mH by arith
    then show ?thesis using False Suc by (simp add: less_Suc_eq)
  qed
  finally show ?case .
qed

lemma outer_fold_rotated:
  assumes "length s = W * H"
  shows "fold (rotate_row W H old) [0..<H] s = rotated W H old"
proof (rule nth_equalityI)
  show "length (fold (rotate_row W H old) [0..<H] s) = length (rotated W H old)"
    using assms by (simp add: outer_fold_length rotated_def)
next
  fix m
  assume "m < length (fold (rotate_row W H old) [0..<H] s)"
  then have m: "m < W * H" using assms by (simp add: outer_fold_length)
  then have "0 < H" by (cases H) simp_all
  then have "H - 1 - m mod H < H" by simp
  then show "fold (rotate_row W H old) [0..<H] s ! m = rotated W H old ! m"
    using outer_fold_nth [OF m assms, of H old] m by (simp add: rotated_def)
qed

lemma unat_times_3:
  assumes "int n \<le> INT_MAX"
  shows "unat (word_of_int (int n) * 3 :: size_t) = n * 3"
proof -
  have n: "n < 2 ^ 31" using assms by (simp add: INT_MAX_def)
  have "unat (word_of_nat n :: size_t) = n mod 2 ^ 64"
    by (simp only: unat_of_nat len_bit0 len_num1)  simp
  also have "\<dots> = n" using n by simp
  finally have a: "unat (word_of_nat n :: size_t) = n" .
  have "unat (word_of_nat n * 3 :: size_t) = unat (word_of_nat n :: size_t) * unat (3 :: size_t) mod 2 ^ 64"
    by (simp only: unat_word_ariths len_bit0 len_num1) simp
  also have "\<dots> = n * 3" using n by (simp add: a)
  finally show ?thesis by simp
qed

lemma malloc_pixels_ok:
  assumes "int n \<le> INT_MAX" "alloc_ok env (n * 3)"
  shows "malloc_pixels env (word_of_int (int n) * 3) = Some (map (junk_pixel env) [0..<n])"
  using assms by (simp only: malloc_pixels_def unat_times_3) simp

lemma malloc_pixels_fails:
  assumes "int n \<le> INT_MAX" "\<not> alloc_ok env (n * 3)"
  shows "malloc_pixels env (word_of_int (int n) * 3) = None"
  using assms by (simp only: malloc_pixels_def unat_times_3) simp

lemma rotate_inner_loop:
  assumes "i < H" "length old = W * H" "length s = W * H" "int (W * H) \<le> INT_MAX"
  shows "c_for (int W) (rotate_pixel (int W) (int H) (int H) old (int i)) s
           = Returns (rotate_row W H old i s)"
proof -
  have "c_for (int W) (rotate_pixel (int W) (int H) (int H) old (int i)) s
          = Returns (fold (\<lambda>j s. s[j * H + (H - 1 - i) := old ! (i * W + j)]) [0..<W] s)
        \<and> length (fold (\<lambda>j s. s[j * H + (H - 1 - i) := old ! (i * W + j)]) [0..<W] s) = W * H"
  proof (rule c_for_fold [where P = "\<lambda>s. length s = W * H"])
    fix j and t :: "Pixel list"
    assume "j < W" "length t = W * H"
    then show "rotate_pixel (int W) (int H) (int H) old (int i) (int j) t
                 = Returns (t[j * H + (H - 1 - i) := old ! (i * W + j)])
               \<and> length (t[j * H + (H - 1 - i) := old ! (i * W + j)]) = W * H"
      using rotate_pixel_Returns [OF assms(1) _ assms(2) _ assms(4), of j t] by simp
  qed (rule assms(3))
  then show ?thesis by (simp add: rotate_row_def)
qed

lemma rotate_outer_loop:
  assumes "length old = W * H" "length s = W * H" "int (W * H) \<le> INT_MAX"
  shows "c_for (int H) (\<lambda>i. c_for (int W) (rotate_pixel (int W) (int H) (int H) old i)) s
           = Returns (rotated W H old)"
proof -
  have "c_for (int H) (\<lambda>i. c_for (int W) (rotate_pixel (int W) (int H) (int H) old i)) s
          = Returns (fold (rotate_row W H old) [0..<H] s)
        \<and> length (fold (rotate_row W H old) [0..<H] s) = W * H"
  proof (rule c_for_fold [where P = "\<lambda>s. length s = W * H"])
    fix i and t :: "Pixel list"
    assume "i < H" "length t = W * H"
    then show "c_for (int W) (rotate_pixel (int W) (int H) (int H) old (int i)) t
                 = Returns (rotate_row W H old i t)
               \<and> length (rotate_row W H old i t) = W * H"
      using rotate_inner_loop [OF _ assms(1) _ assms(3), of i t] by (simp add: rotate_row_length)
  qed (rule assms(2))
  then show ?thesis using assms(2) by (simp add: outer_fold_rotated)
qed

lemma bmp_rotate_right_valid:
  assumes "data img = Some old" "sint (width img) = int W" "sint (height img) = int H"
    and "length old = W * H" "int (W * H) \<le> INT_MAX" "alloc_ok env (W * H * 3)"
  shows "bmp_rotate_right env (Some img)
           = Returns (Some \<lparr>width = height img, height = width img, data = Some (rotated W H old)\<rparr>)"
proof -
  have m: "c_mul (int H) (int W) = Returns (int (W * H))"
    using assms(5) c_int_result_nonneg [of "int (W * H)"] by (simp add: c_mul_def mult.commute)
  have a: "malloc_pixels env (word_of_int (int (W * H)) * 3) = Some (map (junk_pixel env) [0..<W * H])"
    using assms by (intro malloc_pixels_ok) simp_all
  have l: "c_for (int H) (\<lambda>i. c_for (int W) (rotate_pixel (int W) (int H) (int H) old i))
             (map (junk_pixel env) [0..<W * H]) = Returns (rotated W H old)"
    using assms by (intro rotate_outer_loop) simp_all
  show ?thesis
    by (simp only: bmp_rotate_right_def assms(1,2,3) Let_def option.case m a l and_then.simps)
qed

lemma length_rotated: "length (rotated W H old) = W * H"
  by (simp add: rotated_def)

lemma rotated_nth:
  "m < W * H \<Longrightarrow> rotated W H old ! m = old ! ((H - 1 - m mod H) * W + m div H)"
  by (simp add: rotated_def)

lemma rotated_cell:
  assumes "i < H" "j < W"
  shows "rotated W H old ! (j * H + (H - 1 - i)) = old ! (i * W + j)"
proof -
  define c where "c = H - 1 - i"
  have c: "c < H" and i: "H - 1 - c = i" using assms by (simp_all add: c_def)
  have "j * H + c < W * H"
    using cell_less [of j W c H] assms c by (simp add: mult.commute)
  then have "rotated W H old ! (j * H + c) = old ! ((H - 1 - (j * H + c) mod H) * W + (j * H + c) div H)"
    by (rule rotated_nth)
  also have "(j * H + c) mod H = c" using c by simp
  also have "(j * H + c) div H = j" using c by simp
  finally show ?thesis unfolding i unfolding c_def .
qed

lemma rotated_2x2: "rotated 2 2 [a, b, c, d] = [c, a, d, b]"
  by (simp add: rotated_def upt_conv_Cons)

lemma bmp_rotate_right_empty:
  assumes "data img = Some old" "sint (height img) \<le> 0"
    and "int (length old) = sint (width img) * sint (height img)"
    and "sint (width img) * sint (height img) \<le> INT_MAX"
    and "alloc_ok env (length old * 3)"
  shows "bmp_rotate_right env (Some img)
           = Returns (Some \<lparr>width = height img, height = width img,
                            data = Some (map (junk_pixel env) [0..<length old])\<rparr>)"
proof -
  have m: "c_mul (sint (height img)) (sint (width img)) = Returns (int (length old))"
    using assms(3,4) c_int_result_nonneg [of "int (length old)"] by (simp add: c_mul_def mult.commute)
  have a: "malloc_pixels env (word_of_int (int (length old)) * 3)
             = Some (map (junk_pixel env) [0..<length old])"
    using assms(3,4,5) by (intro malloc_pixels_ok) simp_all
  have l: "c_for (sint (height img)) body s = Returns s" for body and s :: "Pixel list"
    using assms(2) by (simp add: c_for_def)
  show ?thesis
    by (simp only: bmp_rotate_right_def assms(1) Let_def option.case m a l and_then.simps)
qed

text \<open>
  C4, as amended. For every image whose buffer has exactly \<open>width * height\<close> pixels,
  where \<open>width * height\<close> is at most \<open>INT_MAX\<close>, when the allocation of the new buffer
  succeeds, \<open>bmp_rotate_right\<close> returns an image whose width is the old height and whose
  height is the old width, with a buffer of the same length in which, for every row
  \<open>i\<close> and column \<open>j\<close> of the source, the pixel of the old index \<open>i * width + j\<close>
  stands at the index \<open>j * height + (height - 1 - i)\<close>. In particular the 2 by 2 image
  with the pixels \<open>[a, b, c, d]\<close> becomes the one with \<open>[c, a, d, b]\<close>.
\<close>

theorem rotate_right_index:
  "(data img = Some old
      \<and> int (length old) = sint (width img) * sint (height img)
      \<and> sint (width img) * sint (height img) \<le> INT_MAX
      \<and> alloc_ok env (length old * 3) \<longrightarrow>
    (\<exists>new_data.
       bmp_rotate_right env (Some img)
         = Returns (Some \<lparr>width = height img, height = width img, data = Some new_data\<rparr>)
       \<and> length new_data = length old
       \<and> (\<forall>i j. 0 \<le> i \<and> i < sint (height img) \<and> 0 \<le> j \<and> j < sint (width img) \<longrightarrow>
              new_data ! nat (j * sint (height img) + (sint (height img) - 1 - i))
                = old ! nat (i * sint (width img) + j))))
   \<and> (alloc_ok env 12 \<longrightarrow>
        bmp_rotate_right env (Some \<lparr>width = 2, height = 2, data = Some [a, b, c, d]\<rparr>)
          = Returns (Some \<lparr>width = 2, height = 2, data = Some [c, a, d, b]\<rparr>))"
proof (intro conjI impI)
  assume h: "data img = Some old
      \<and> int (length old) = sint (width img) * sint (height img)
      \<and> sint (width img) * sint (height img) \<le> INT_MAX
      \<and> alloc_ok env (length old * 3)"
  show "\<exists>new_data.
       bmp_rotate_right env (Some img)
         = Returns (Some \<lparr>width = height img, height = width img, data = Some new_data\<rparr>)
       \<and> length new_data = length old
       \<and> (\<forall>i j. 0 \<le> i \<and> i < sint (height img) \<and> 0 \<le> j \<and> j < sint (width img) \<longrightarrow>
              new_data ! nat (j * sint (height img) + (sint (height img) - 1 - i))
                = old ! nat (i * sint (width img) + j))"
  proof (cases "0 \<le> sint (height img) \<and> 0 \<le> sint (width img)")
    case True
    define W where "W = nat (sint (width img))"
    define H where "H = nat (sint (height img))"
    have w: "sint (width img) = int W" and hh: "sint (height img) = int H"
      and len: "length old = W * H"
      using h True nat_dims0 [of "sint (width img)" "sint (height img)" "length old"]
      by (simp_all add: W_def H_def)
    have le: "int (W * H) \<le> INT_MAX"
      using h by (simp add: w hh)
    have r: "bmp_rotate_right env (Some img)
           = Returns (Some \<lparr>width = height img, height = width img, data = Some (rotated W H old)\<rparr>)"
      using h by (intro bmp_rotate_right_valid w hh len le) (simp_all add: len)
    have cells: "rotated W H old ! nat (j * int H + (int H - 1 - i)) = old ! nat (i * int W + j)"
      if "0 \<le> i" "i < int H" "0 \<le> j" "j < int W" for i j
    proof -
      have "rotated W H old ! (nat j * H + (H - 1 - nat i)) = old ! (nat i * W + nat j)"
        using that by (intro rotated_cell) simp_all
      moreover have "nat (j * int H + (int H - 1 - i)) = nat j * H + (H - 1 - nat i)"
        using that by (simp add: nat_add_distrib nat_mult_distrib nat_diff_distrib)
      moreover have "nat (i * int W + j) = nat i * W + nat j"
        using that by (simp add: nat_add_distrib nat_mult_distrib)
      ultimately show ?thesis by simp
    qed
    show ?thesis
      using r cells by (intro exI [of _ "rotated W H old"]) (simp add: w hh len length_rotated)
  next
    case False
    have nn: "0 \<le> sint (width img) * sint (height img)"
      using h by (metis of_nat_0_le_iff)
    have "sint (height img) \<le> 0"
    proof (cases "sint (height img) < 0")
      case True
      then show ?thesis by simp
    next
      case hn: False
      then have "sint (width img) < 0" using False by simp
      then show ?thesis
        using nn by (simp add: zero_le_mult_iff)
    qed
    then have r: "bmp_rotate_right env (Some img)
           = Returns (Some \<lparr>width = height img, height = width img,
                            data = Some (map (junk_pixel env) [0..<length old])\<rparr>)"
      using h by (intro bmp_rotate_right_empty) simp_all
    show ?thesis
      using r \<open>sint (height img) \<le> 0\<close>
      by (intro exI [of _ "map (junk_pixel env) [0..<length old]"]) auto
  qed
next
  assume "alloc_ok env 12"
  then have "bmp_rotate_right env (Some \<lparr>width = 2, height = 2, data = Some [a, b, c, d]\<rparr>)
         = Returns (Some \<lparr>width = height \<lparr>width = 2, height = 2, data = Some [a, b, c, d]\<rparr>,
                          height = width \<lparr>width = 2, height = 2, data = Some [a, b, c, d]\<rparr>,
                          data = Some (rotated 2 2 [a, b, c, d])\<rparr>)"
    by (intro bmp_rotate_right_valid) (simp_all add: INT_MAX_def)
  then show "bmp_rotate_right env (Some \<lparr>width = 2, height = 2, data = Some [a, b, c, d]\<rparr>)
          = Returns (Some \<lparr>width = 2, height = 2, data = Some [c, a, d, b]\<rparr>)"
    by (simp add: rotated_2x2)
qed

theorem rotate_right_index_witness:
  "alloc_ok env_ok 12
   \<and> bmp_rotate_right env_ok (Some image_2x2)
       = Returns (Some \<lparr>width = 2, height = 2, data = Some [p2, p0, p3, p1]\<rparr>)
   \<and> (data image_3x2 = Some [p0, p1, p2, p3, p0, p1]
        \<and> int (length [p0, p1, p2, p3, p0, p1]) = sint (width image_3x2) * sint (height image_3x2)
        \<and> sint (width image_3x2) * sint (height image_3x2) \<le> INT_MAX
        \<and> alloc_ok env_ok (length [p0, p1, p2, p3, p0, p1] * 3))
   \<and> (\<exists>new_data.
       bmp_rotate_right env_ok (Some image_3x2)
         = Returns (Some \<lparr>width = height image_3x2, height = width image_3x2, data = Some new_data\<rparr>)
       \<and> length new_data = length [p0, p1, p2, p3, p0, p1]
       \<and> (\<forall>i j. 0 \<le> i \<and> i < sint (height image_3x2) \<and> 0 \<le> j \<and> j < sint (width image_3x2) \<longrightarrow>
              new_data ! nat (j * sint (height image_3x2) + (sint (height image_3x2) - 1 - i))
                = [p0, p1, p2, p3, p0, p1] ! nat (i * sint (width image_3x2) + j)))"
proof -
  have h: "data image_3x2 = Some [p0, p1, p2, p3, p0, p1]
        \<and> int (length [p0, p1, p2, p3, p0, p1]) = sint (width image_3x2) * sint (height image_3x2)
        \<and> sint (width image_3x2) * sint (height image_3x2) \<le> INT_MAX
        \<and> alloc_ok env_ok (length [p0, p1, p2, p3, p0, p1] * 3)"
    by (simp add: image_3x2_def env_ok_def INT_MAX_def)
  have a: "alloc_ok env_ok 12" by (simp add: env_ok_def)
  note t = rotate_right_index [of image_3x2 "[p0, p1, p2, p3, p0, p1]" env_ok p0 p1 p2 p3]
  from t h a show ?thesis
    unfolding image_2x2_def by blast
qed

text \<open>
  The claim as stated, for every image with a buffer, fails on the image of \<open>2 ^ 30\<close>
  columns and 2 rows with all its pixels, where \<^verbatim>\<open>new_width * new_height\<close> overflows, and
  on the image of 3 columns and 2 rows when the allocation fails: the function returns
  at \<^verbatim>\<open>if (!new_data) return;\<close> and the image keeps its width 3 and height 2.
\<close>

theorem rotate_right_counterexample:
  "data huge_image = Some (replicate 2147483648 p0)
   \<and> int (length (replicate 2147483648 p0)) = sint (width huge_image) * sint (height huge_image)
   \<and> bmp_rotate_right env_ok (Some huge_image) = Undefined SignedOverflow
   \<and> bmp_rotate_right env_no_memory (Some image_3x2) = Returns (Some image_3x2)
   \<and> width image_3x2 \<noteq> height image_3x2"
  by (simp add: huge_image_def image_3x2_def env_ok_def env_no_memory_def bmp_rotate_right_def
      c_mul_def c_int_result_def INT_MAX_def INT_MIN_def malloc_pixels_def)

lemma rotated_rotated: "rotated H W (rotated W H old) = half_turn W H old"
proof (rule nth_equalityI)
  show "length (rotated H W (rotated W H old)) = length (half_turn W H old)"
    by (simp add: length_rotated half_turn_def mult.commute)
next
  fix m
  assume "m < length (rotated H W (rotated W H old))"
  then have m: "m < H * W" by (simp add: length_rotated)
  then have W: "0 < W" by (cases W) simp_all
  have d: "m div W < H" using m by (simp add: less_mult_imp_div_less)
  let ?k = "(W - 1 - m mod W) * H + m div W"
  have k: "?k < W * H"
    using cell_less [of "W - 1 - m mod W" W "m div W" H] W d by (simp add: mult.commute)
  have "rotated H W (rotated W H old) ! m = rotated W H old ! ?k"
    using m by (simp add: rotated_nth)
  also have "\<dots> = old ! ((H - 1 - ?k mod H) * W + ?k div H)"
    using k by (simp add: rotated_nth)
  also have "?k mod H = m div W" using d by simp
  also have "?k div H = W - 1 - m mod W" using d by simp
  finally show "rotated H W (rotated W H old) ! m = half_turn W H old ! m"
    using m by (simp add: half_turn_def mult.commute)
qed

lemma half_turn_half_turn:
  assumes "length old = W * H"
  shows "half_turn W H (half_turn W H old) = old"
proof (rule nth_equalityI)
  show "length (half_turn W H (half_turn W H old)) = length old"
    using assms by (simp add: half_turn_def)
next
  fix m
  assume "m < length (half_turn W H (half_turn W H old))"
  then have m: "m < W * H" by (simp add: half_turn_def)
  then have W: "0 < W" by (cases W) simp_all
  have d: "m div W < H" using m by (simp add: less_mult_imp_div_less mult.commute)
  have r: "m mod W < W" using W by simp
  let ?k = "(H - 1 - m div W) * W + (W - 1 - m mod W)"
  have k: "?k < W * H"
    using cell_less [of "H - 1 - m div W" H "W - 1 - m mod W" W] W d by simp
  have kd: "?k div W = H - 1 - m div W" using W by simp
  have km: "?k mod W = W - 1 - m mod W" using W by simp
  have "half_turn W H (half_turn W H old) ! m = half_turn W H old ! ?k"
    using m by (simp add: half_turn_def)
  also have "\<dots> = old ! ((H - 1 - ?k div W) * W + (W - 1 - ?k mod W))"
    using k by (simp only: half_turn_def nth_map_upt) simp
  also have "(H - 1 - ?k div W) = m div W" unfolding kd using d by simp
  also have "(W - 1 - ?k mod W) = m mod W" unfolding km using r by simp
  finally show "half_turn W H (half_turn W H old) ! m = old ! m"
    by simp
qed

lemma four_rotations:
  assumes "length old = W * H"
  shows "rotated H W (rotated W H (rotated H W (rotated W H old))) = old"
  using assms by (simp add: rotated_rotated half_turn_half_turn)

text \<open>
  C5, as amended. For every image with positive width and height whose buffer has
  exactly \<open>width * height\<close> pixels, where \<open>width * height\<close> is at most \<open>INT_MAX\<close>, four
  calls of \<open>bmp_rotate_right\<close>, each in a system in which the allocation of the new
  buffer succeeds, return the image they started from: the same width, height and
  pixels.
\<close>

theorem four_rotations_identity:
  assumes "data img = Some old"
    and "0 < sint (width img)" "0 < sint (height img)"
    and "int (length old) = sint (width img) * sint (height img)"
    and "sint (width img) * sint (height img) \<le> INT_MAX"
    and "alloc_ok env1 (length old * 3)" "alloc_ok env2 (length old * 3)"
    and "alloc_ok env3 (length old * 3)" "alloc_ok env4 (length old * 3)"
  shows "and_then (bmp_rotate_right env1 (Some img)) (\<lambda>once.
         and_then (bmp_rotate_right env2 once) (\<lambda>twice.
         and_then (bmp_rotate_right env3 twice) (\<lambda>thrice.
           bmp_rotate_right env4 thrice)))
         = Returns (Some img)"
proof -
  define W where "W = nat (sint (width img))"
  define H where "H = nat (sint (height img))"
  have w: "sint (width img) = int W" and h: "sint (height img) = int H"
    and len: "length old = W * H"
    using assms nat_dims [of "sint (width img)" "sint (height img)" "length old"]
    by (simp_all add: W_def H_def)
  have le: "int (W * H) \<le> INT_MAX" and le': "int (H * W) \<le> INT_MAX"
    using assms(5) by (simp_all add: w h mult.commute)
  have a: "alloc_ok env1 (W * H * 3)" "alloc_ok env2 (H * W * 3)"
    "alloc_ok env3 (W * H * 3)" "alloc_ok env4 (H * W * 3)"
    using assms(6-9) by (simp_all add: len mult.commute)
  let ?r1 = "rotated W H old"
  let ?r2 = "rotated H W ?r1"
  let ?r3 = "rotated W H ?r2"
  let ?i1 = "\<lparr>width = height img, height = width img, data = Some ?r1\<rparr>"
  let ?i2 = "\<lparr>width = width img, height = height img, data = Some ?r2\<rparr>"
  let ?i3 = "\<lparr>width = height img, height = width img, data = Some ?r3\<rparr>"
  have 1: "bmp_rotate_right env1 (Some img) = Returns (Some ?i1)"
    by (rule bmp_rotate_right_valid [OF assms(1) w h len le a(1)])
  have "bmp_rotate_right env2 (Some ?i1)
          = Returns (Some \<lparr>width = height ?i1, height = width ?i1, data = Some ?r2\<rparr>)"
    by (rule bmp_rotate_right_valid [OF _ _ _ _ le' a(2)]) (simp_all add: h w length_rotated mult.commute)
  then have 2: "bmp_rotate_right env2 (Some ?i1) = Returns (Some ?i2)"
    by simp
  have "bmp_rotate_right env3 (Some ?i2)
          = Returns (Some \<lparr>width = height ?i2, height = width ?i2, data = Some ?r3\<rparr>)"
    by (rule bmp_rotate_right_valid [OF _ _ _ _ le a(3)]) (simp_all add: h w length_rotated mult.commute)
  then have 3: "bmp_rotate_right env3 (Some ?i2) = Returns (Some ?i3)"
    by simp
  have "bmp_rotate_right env4 (Some ?i3)
          = Returns (Some \<lparr>width = height ?i3, height = width ?i3, data = Some (rotated H W ?r3)\<rparr>)"
    by (rule bmp_rotate_right_valid [OF _ _ _ _ le' a(4)]) (simp_all add: h w length_rotated mult.commute)
  also have "rotated H W ?r3 = old"
    by (rule four_rotations [OF len])
  finally have 4: "bmp_rotate_right env4 (Some ?i3) = Returns (Some img)"
    using assms(1) image_surjective [of img] by simp
  show ?thesis
    by (simp only: 1 2 3 4 and_then.simps)
qed

theorem four_rotations_identity_witness:
  "and_then (bmp_rotate_right env_ok (Some image_3x2)) (\<lambda>once.
   and_then (bmp_rotate_right env_ok once) (\<lambda>twice.
   and_then (bmp_rotate_right env_ok twice) (\<lambda>thrice.
     bmp_rotate_right env_ok thrice)))
   = Returns (Some image_3x2)"
  by (rule four_rotations_identity [of image_3x2 "[p0, p1, p2, p3, p0, p1]"])
    (simp_all add: image_3x2_def env_ok_def INT_MAX_def)

text \<open>
  The claim as stated fails on the image of \<open>2 ^ 16\<close> columns and rows with all its
  pixels, where \<^verbatim>\<open>new_width * new_height\<close> overflows in the first call, and on the
  image of 3 columns and 2 rows when the first allocation succeeds and the other three
  fail: the image stays rotated once.
\<close>

theorem four_rotations_counterexample:
  "data huge_square = Some (replicate 4294967296 p0)
   \<and> 0 < sint (width huge_square) \<and> 0 < sint (height huge_square)
   \<and> int (length (replicate 4294967296 p0)) = sint (width huge_square) * sint (height huge_square)
   \<and> and_then (bmp_rotate_right env_ok (Some huge_square)) (\<lambda>once.
   and_then (bmp_rotate_right env_ok once) (\<lambda>twice.
   and_then (bmp_rotate_right env_ok twice) (\<lambda>thrice.
     bmp_rotate_right env_ok thrice)))
   = Undefined SignedOverflow
   \<and> and_then (bmp_rotate_right env_ok (Some image_3x2)) (\<lambda>once.
     and_then (bmp_rotate_right env_no_memory once) (\<lambda>twice.
     and_then (bmp_rotate_right env_no_memory twice) (\<lambda>thrice.
       bmp_rotate_right env_no_memory thrice)))
     = Returns (Some \<lparr>width = 2, height = 3, data = Some [p3, p0, p0, p1, p1, p2]\<rparr>)
   \<and> \<lparr>width = 2, height = 3, data = Some [p3, p0, p0, p1, p1, p2]\<rparr> \<noteq> image_3x2"
proof -
  have a: "bmp_rotate_right env_ok (Some huge_square) = Undefined SignedOverflow"
    by (simp add: huge_square_def bmp_rotate_right_def c_mul_def c_int_result_def INT_MAX_def INT_MIN_def)
  have "bmp_rotate_right env_ok (Some image_3x2)
          = Returns (Some \<lparr>width = height image_3x2, height = width image_3x2,
                           data = Some (rotated 3 2 [p0, p1, p2, p3, p0, p1])\<rparr>)"
    by (rule bmp_rotate_right_valid) (simp_all add: image_3x2_def env_ok_def INT_MAX_def)
  also have "rotated 3 2 [p0, p1, p2, p3, p0, p1] = [p3, p0, p0, p1, p1, p2]"
    by (simp add: rotated_def upt_conv_Cons)
  finally have b: "bmp_rotate_right env_ok (Some image_3x2)
          = Returns (Some \<lparr>width = 2, height = 3, data = Some [p3, p0, p0, p1, p1, p2]\<rparr>)"
    by (simp add: image_3x2_def)
  have c: "bmp_rotate_right env_no_memory
             (Some \<lparr>width = 2, height = 3, data = Some [p3, p0, p0, p1, p1, p2]\<rparr>)
           = Returns (Some \<lparr>width = 2, height = 3, data = Some [p3, p0, p0, p1, p1, p2]\<rparr>)"
    by (simp add: env_ok_def env_no_memory_def bmp_rotate_right_def
      c_mul_def c_int_result_def INT_MAX_def INT_MIN_def malloc_pixels_def)
  have d: "data huge_square = Some (replicate 4294967296 p0)
     \<and> 0 < sint (width huge_square) \<and> 0 < sint (height huge_square)
     \<and> int (length (replicate 4294967296 p0)) = sint (width huge_square) * sint (height huge_square)"
    by (simp add: huge_square_def)
  have e: "\<lparr>width = 2, height = 3, data = Some [p3, p0, p0, p1, p1, p2]\<rparr> \<noteq> image_3x2"
    by (simp add: image_3x2_def)
  show ?thesis
    by (simp only: a b c d e and_then.simps) simp
qed

subsection \<open>Headers as bytes\<close>

lemma rd16_le16: "or (ucast (ucast v :: byte)) (push_bit 8 (ucast (ucast (drop_bit 8 v) :: byte))) = (v :: uint16_t)"
  apply (rule bit_word_eqI)
  apply (simp add: bit_simps)
  apply (rule iffI)
   apply (auto)[1]
  apply (subgoal_tac "n < 8 \<or> 8 \<le> n")
   apply (auto)[1]
  apply arith
  done

lemma rd32_le32:
  "or (ucast (ucast v :: byte))
     (or (push_bit 8 (ucast (ucast (drop_bit 8 v) :: byte)))
       (or (push_bit 16 (ucast (ucast (drop_bit 16 v) :: byte)))
           (push_bit 24 (ucast (ucast (drop_bit 24 v) :: byte))))) = (v :: uint32_t)"
  apply (rule bit_word_eqI)
  apply (simp add: bit_simps)
  apply (rule iffI)
   apply (auto)[1]
  apply (subgoal_tac "n < 8 \<or> (8 \<le> n \<and> n < 16) \<or> (16 \<le> n \<and> n < 24) \<or> 24 \<le> n")
   apply (auto)[1]
  apply arith
  done

lemma length_fh_bytes: "length (fh_bytes fh) = 14"
  by (simp add: fh_bytes_def le16_def le32_def)

lemma length_ih_bytes: "length (ih_bytes ih) = 40"
  by (simp add: ih_bytes_def le16_def le32_def)

lemma fh_of_bytes_fh_bytes: "fh_of_bytes (fh_bytes fh) = (fh :: BMPFileHeader)"
  by (cases fh) (simp add: fh_of_bytes_def fh_bytes_def le16_def le32_def rd16_def rd32_def
      rd16_le16 rd32_le32)

lemma ih_of_bytes_ih_bytes: "ih_of_bytes (ih_bytes ih) = (ih :: BMPInfoHeader)"
  by (cases ih) (simp add: ih_of_bytes_def ih_bytes_def le16_def le32_def rd16_def rd32_def
      rd16_le16 rd32_le32)






subsection \<open>\<^verbatim>\<open>bmp_load\<close> on a file that is not a 24-bit bitmap\<close>


lemma fread_struct_pos:
  "snd (fread_struct file pos n before) = pos + min n (length file - pos)"
  by (simp add: fread_struct_def Let_def min.commute)

lemma bmp_load_headers:
  "bmp_load env (Some bs) err_out =
     (let fh = fh_of_bytes (fst (fread_struct bs 0 14 (fh_bytes (junk_fh env))));
          ih = ih_of_bytes (fst (fread_struct bs (min 14 (length bs)) 40 (ih_bytes (junk_ih env))))
      in
        if fh_type fh \<noteq> 0x4D42 \<or> ih_bit_count ih \<noteq> 24 then
          Returns \<lparr>returned = None, err = set_err err_out BMP_ERR_INVALID_FORMAT,
                   closed = True, mallocs = 0, frees = 0\<rparr>
        else if \<not> alloc_ok env 16 then Undefined NullPointer
        else
          and_then (c_abs (sint (ih_height ih))) (\<lambda>h.
          and_then (c_mul h (sint (ih_width ih))) (\<lambda>n.
            case malloc_pixels env (word_of_int n * 3) of
              None \<Rightarrow>
                Returns \<lparr>returned = None, err = set_err err_out BMP_ERR_MALLOC_FAILED,
                         closed = True, mallocs = 1, frees = 1\<rparr>
            | Some block \<Rightarrow>
                and_then
                  (c_for h (load_row bs (ih_width ih) (calculate_padding (ih_width ih)))
                     (block, unat (fh_offset fh)))
                  (\<lambda>(buf, pos).
                     Returns \<lparr>returned = Some \<lparr>width = ih_width ih, height = word_of_int h,
                                                data = Some buf\<rparr>,
                              err = set_err err_out BMP_SUCCESS,
                              closed = True, mallocs = 2, frees = 0\<rparr>))))"
proof -
  obtain fhb pos1 where a: "fread_struct bs 0 14 (fh_bytes (junk_fh env)) = (fhb, pos1)"
    by (cases "fread_struct bs 0 14 (fh_bytes (junk_fh env))")
  have p: "pos1 = min 14 (length bs)"
    using fread_struct_pos [of bs 0 14 "fh_bytes (junk_fh env)"] a by simp
  obtain ihb pos2 where b: "fread_struct bs (min 14 (length bs)) 40 (ih_bytes (junk_ih env)) = (ihb, pos2)"
    by (cases "fread_struct bs (min 14 (length bs)) 40 (ih_bytes (junk_ih env))")
  show ?thesis
    using a b unfolding p by (simp add: bmp_load_def Let_def)
qed













subsection \<open>\<^verbatim>\<open>bmp_load\<close> on a file that cannot be opened\<close>

text \<open>
  C2. The claim is that \<open>bmp_load\<close> of a byte source that cannot be opened fails with
  \<open>BMP_ERR_FILE_NOT_FOUND\<close>, returns the null pointer and reads nothing. The code does
  not return there: whatever the system and whether \<open>err_out\<close> is null or not, it reads
  from the null stream, which is undefined behaviour. \<open>bmp_save\<close>, whose sink cannot be
  opened, does return \<open>BMP_ERR_FILE_NOT_FOUND\<close>, for every image pointer, and writes
  nothing.
\<close>

theorem bmp_load_unopened:
  "bmp_load env None err_out = Undefined NullPointer
   \<and> bmp_save imagep False = Returns (BMP_ERR_FILE_NOT_FOUND, None)"
  by (simp add: bmp_load_def bmp_save_def)

theorem bmp_load_unopened_witness:
  "bmp_load env_ok None True = Undefined NullPointer
   \<and> bmp_save (Some image_2x2) False = Returns (BMP_ERR_FILE_NOT_FOUND, None)"
  using bmp_load_unopened [of env_ok True "Some image_2x2"] by simp

subsection \<open>\<^verbatim>\<open>bmp_save\<close> and \<^verbatim>\<open>bmp_load\<close> of what it wrote\<close>

lemma pixels_of_bytes_pixel_bytes:
  "pixels_of_bytes (concat (map pixel_bytes ps)) = ps"
  by (induction ps) (simp_all add: pixel_bytes_def)

lemma length_pixel_bytes: "length (concat (map pixel_bytes ps)) = 3 * length ps"
  by (induction ps) (simp_all add: pixel_bytes_def)

lemma bmp_save_unfold:
  "bmp_save (Some img) True =
     and_then
       (c_for (sint (height img)) (save_row img (calculate_padding (width img)))
          (fh_bytes (saved_fh img) @ ih_bytes (saved_ih img)))
       (\<lambda>out. Returns (BMP_SUCCESS, Some out))"
  by (simp add: bmp_save_def Let_def saved_fh_def saved_ih_def)

lemma save_row_Returns:
  assumes "data img = Some buf" "sint (width img) = int W"
    and "i * W + W \<le> length buf" "int (i * W) \<le> INT_MAX"
    and "p = nat (sint (calculate_padding (width img)))"
  shows "save_row img (calculate_padding (width img)) (int i) out
           = Returns (out @ row_bytes W (\<lambda>i. replicate p 0) buf i)"
proof -
  have m: "c_mul (int i) (int W) = Returns (int (i * W))"
    unfolding c_mul_def of_nat_mult [symmetric]
    by (rule c_int_result_nonneg) (use assms(4) in simp_all)
  have u: "unat (scast (width img) :: size_t) = W"
    using unat_scast_size_t [of "width img"] assms(2) by simp
  have s: "slice buf (int (i * W)) W = Returns (take W (drop (i * W) buf))"
    by (rule slice_nat) (rule assms(3))
  have z: "slice [0, 0, 0 :: byte] 0 p = Returns (replicate p 0)"
  proof -
    have "p \<le> 3" using padding_nat(2) [of "width img"] assms(5) by simp
    then have "p = 0 \<or> p = 1 \<or> p = 2 \<or> p = 3" by arith
    then show ?thesis by (auto simp: slice_def numeral_2_eq_2 numeral_3_eq_3)
  qed
  show ?thesis
    by (simp only: save_row_def assms(1,2) m and_then.simps option.case u s padding_nat(1)
        assms(5) [symmetric] z row_bytes_def)
qed

lemma fold_append_rows:
  "fold (\<lambda>i out. out @ f i) [a..<a + n] out = out @ concat (map f [a..<a + n])"
proof (induction n arbitrary: out)
  case 0
  then show ?case by simp
next
  case (Suc n)
  have "[a..<a + Suc n] = [a..<a + n] @ [a + n]" by simp
  then show ?case using Suc by (simp only: fold_append map_append concat_append) simp
qed

lemma bmp_save_valid:
  assumes "data img = Some buf" "sint (width img) = int W" "sint (height img) = int H"
    and "length buf = W * H" "\<And>i. i < H \<Longrightarrow> int (i * W) \<le> INT_MAX"
    and "p = nat (sint (calculate_padding (width img)))"
  shows "bmp_save (Some img) True
           = Returns (BMP_SUCCESS,
               Some (fh_bytes (saved_fh img) @ ih_bytes (saved_ih img)
                     @ concat (map (row_bytes W (\<lambda>i. replicate p 0) buf) [0..<H])))"
proof -
  let ?hdr = "fh_bytes (saved_fh img) @ ih_bytes (saved_ih img)"
  let ?row = "row_bytes W (\<lambda>i. replicate p 0) buf"
  have "c_for (int H) (save_row img (calculate_padding (width img))) ?hdr
          = Returns (fold (\<lambda>i out. out @ ?row i) [0..<H] ?hdr)
        \<and> True"
  proof (rule c_for_fold [where P = "\<lambda>s. True"])
    fix i and out :: "byte list"
    assume i: "i < H"
    then have "i * W + W \<le> length buf"
      using cell_less [of i H 0 "Suc W"] assms(4)
      by (metis Suc_leI add.commute mult_Suc mult_le_mono1 mult.commute)
    then show "save_row img (calculate_padding (width img)) (int i) out
                 = Returns (out @ ?row i) \<and> True"
      using save_row_Returns [OF assms(1,2) _ assms(5) assms(6), of i out] i by simp
  qed simp
  then show ?thesis
    using fold_append_rows [of ?row 0 H ?hdr]
    by (simp add: bmp_save_unfold assms(3))
qed

lemma drop_concat_chunks:
  "(\<And>x. x \<in> set xs \<Longrightarrow> length x = n) \<Longrightarrow> drop (k * n) (concat xs) = concat (drop k xs)"
proof (induction xs arbitrary: k)
  case Nil
  then show ?case by simp
next
  case (Cons x xs)
  show ?case
  proof (cases k)
    case 0
    then show ?thesis by simp
  next
    case (Suc k')
    have "length x = n" using Cons.prems by simp
    then have "drop (Suc k' * n) (concat (x # xs)) = drop (k' * n) (concat xs)"
      by simp
    then show ?thesis using Cons Suc by simp
  qed
qed

lemma length_row_bytes:
  assumes "i < H" "length buf = W * H" "length (pad i) = p"
  shows "length (row_bytes W pad buf i) = 3 * W + p"
proof -
  have "i * W + W \<le> W * H"
    using assms(1) by (metis Suc_leI mult_Suc mult_le_mono1 mult.commute add.commute)
  then have "length (take W (drop (i * W) buf)) = W"
    using assms(2) by simp
  then show ?thesis
    by (simp add: row_bytes_def length_pixel_bytes assms(3))
qed

lemma drop_rows:
  assumes "length buf = W * H" "i \<le> H" "\<And>j. j < H \<Longrightarrow> length (pad j) = p"
  shows "drop (i * (3 * W + p)) (concat (map (row_bytes W pad buf) [0..<H]))
           = concat (map (row_bytes W pad buf) [i..<H])"
proof -
  have "drop (i * (3 * W + p)) (concat (map (row_bytes W pad buf) [0..<H]))
          = concat (drop i (map (row_bytes W pad buf) [0..<H]))"
    by (rule drop_concat_chunks) (auto simp: length_row_bytes [OF _ assms(1)] assms(3))
  then show ?thesis
    by (simp add: drop_map)
qed

text \<open>
  A file of \<open>H\<close> rows of \<open>W\<close> pixels, each followed by \<open>p\<close> bytes, after \<open>off\<close> bytes of
  headers, seen from the start of row \<open>i\<close>.
\<close>

lemma drop_saved_file:
  assumes "length hdr = off" "length buf = W * H" "i < H"
    and "\<And>j. j < H \<Longrightarrow> length (pad j) = p"
  shows "drop (off + i * (3 * W + p)) (hdr @ concat (map (row_bytes W pad buf) [0..<H]))
           = concat (map pixel_bytes (take W (drop (i * W) buf))) @ pad i
             @ concat (map (row_bytes W pad buf) [Suc i..<H])"
proof -
  have "drop (off + i * (3 * W + p)) (hdr @ concat (map (row_bytes W pad buf) [0..<H]))
          = drop (i * (3 * W + p)) (concat (map (row_bytes W pad buf) [0..<H]))"
    using assms(1) by simp
  also have "\<dots> = concat (map (row_bytes W pad buf) [i..<H])"
    using assms by (intro drop_rows) simp_all
  also have "[i..<H] = i # [Suc i..<H]"
    using assms(3) by (rule upt_conv_Cons)
  also have "concat (map (row_bytes W pad buf) (i # [Suc i..<H]))
               = row_bytes W pad buf i @ concat (map (row_bytes W pad buf) [Suc i..<H])"
    by simp
  also have "row_bytes W pad buf i = concat (map pixel_bytes (take W (drop (i * W) buf))) @ pad i"
    by (simp only: row_bytes_def)
  finally show ?thesis
    by (simp only: append_assoc)
qed

lemma fread_pixels_row:
  assumes "length hdr = off" "length buf = W * H" "i < H"
    and "\<And>j. j < H \<Longrightarrow> length (pad j) = p"
    and "bs = hdr @ concat (map (row_bytes W pad buf) [0..<H])"
  shows "fread_pixels bs (off + i * (3 * W + p)) W
           = (take W (drop (i * W) buf), off + i * (3 * W + p) + 3 * W)"
proof -
  let ?pos = "off + i * (3 * W + p)"
  let ?row = "take W (drop (i * W) buf)"
  let ?rest = "pad i @ concat (map (row_bytes W pad buf) [Suc i..<H])"
  have d: "drop ?pos bs = concat (map pixel_bytes ?row) @ ?rest"
    unfolding assms(5) by (rule drop_saved_file [OF assms(1,2,3,4)])
  have lr: "length ?row = W"
    using row_fits [OF assms(3), of W] assms(2) by simp
  have lb: "length (concat (map pixel_bytes ?row)) = 3 * W"
    by (simp only: length_pixel_bytes lr)
  have "length (drop ?pos bs) = 3 * W + length ?rest"
    by (simp only: d length_append lb)
  then have avail: "length bs - ?pos = 3 * W + length ?rest"
    by simp
  then have k: "min W ((length bs - ?pos) div 3) = W"
    by simp
  have t: "take (3 * W) (drop ?pos bs) = concat (map pixel_bytes ?row)"
    by (simp only: d) (simp add: lb)
  have m: "min (3 * W) (length bs - ?pos) = 3 * W"
    using avail by simp
  show ?thesis
    by (simp only: fread_pixels_def k Let_def t m pixels_of_bytes_pixel_bytes)
qed

lemma bmp_load_after_headers:
  assumes "bs = fh_bytes fh @ ih_bytes ih @ body"
    and "fh_type fh = 0x4D42" "ih_bit_count ih = 24" "alloc_ok env 16"
  shows "bmp_load env (Some bs) err_out =
           and_then (c_abs (sint (ih_height ih))) (\<lambda>h.
           and_then (c_mul h (sint (ih_width ih))) (\<lambda>n.
             case malloc_pixels env (word_of_int n * 3) of
               None \<Rightarrow>
                 Returns \<lparr>returned = None, err = set_err err_out BMP_ERR_MALLOC_FAILED,
                          closed = True, mallocs = 1, frees = 1\<rparr>
             | Some block \<Rightarrow>
                 and_then
                   (c_for h (load_row bs (ih_width ih) (calculate_padding (ih_width ih)))
                      (block, unat (fh_offset fh)))
                   (\<lambda>(buf, pos).
                      Returns \<lparr>returned = Some \<lparr>width = ih_width ih, height = word_of_int h,
                                                 data = Some buf\<rparr>,
                               err = set_err err_out BMP_SUCCESS,
                               closed = True, mallocs = 2, frees = 0\<rparr>)))"
proof -
  have a: "fst (fread_struct bs 0 14 (fh_bytes (junk_fh env))) = fh_bytes fh"
    by (simp add: fread_struct_def assms(1) length_fh_bytes length_ih_bytes)
  have "min 14 (length bs) = 14"
    by (simp add: assms(1) length_fh_bytes length_ih_bytes)
  moreover have "fst (fread_struct bs 14 40 (ih_bytes (junk_ih env))) = ih_bytes ih"
    by (simp add: fread_struct_def assms(1) length_fh_bytes length_ih_bytes)
  ultimately have b:
    "fst (fread_struct bs (min 14 (length bs)) 40 (ih_bytes (junk_ih env))) = ih_bytes ih"
    by (simp only:)
  show ?thesis
    by (simp only: bmp_load_headers a b fh_of_bytes_fh_bytes ih_of_bytes_ih_bytes Let_def)
      (simp add: assms(2,3,4))
qed

lemma load_row_step:
  assumes "length hdr = off" "length buf = W * H" "i < H"
    and "\<And>j. j < H \<Longrightarrow> length (pad j) = p"
    and "bs = hdr @ concat (map (row_bytes W pad buf) [0..<H])"
    and "sint w = int W" "p = nat (sint (calculate_padding w))" "int (W * H) \<le> INT_MAX"
    and "length block = W * H"
  shows "load_row bs w (calculate_padding w) (int i)
           (take (i * W) buf @ drop (i * W) block, off + i * (3 * W + p))
         = Returns (take (Suc i * W) buf @ drop (Suc i * W) block, off + Suc i * (3 * W + p))"
proof -
  let ?b = "take (i * W) buf @ drop (i * W) block"
  let ?row = "take W (drop (i * W) buf)"
  have fit: "i * W + W \<le> W * H" by (rule row_fits [OF assms(3)])
  have "i * W \<le> W * H" using fit by linarith
  then have "int (i * W) \<le> INT_MAX" using assms(8) by linarith
  then have m: "c_mul (int i) (int W) = Returns (int (i * W))"
    unfolding c_mul_def of_nat_mult [symmetric]
    by (intro c_int_result_nonneg) simp_all
  have u: "unat (scast w :: size_t) = W"
    using unat_scast_size_t [of w] assms(6) by simp
  have r: "fread_pixels bs (off + i * (3 * W + p)) W
             = (?row, off + i * (3 * W + p) + 3 * W)"
    by (rule fread_pixels_row [OF assms(1,2,3,4,5)])
  have lr: "length ?row = W" using fit assms(2) by simp
  have iW: "i * W \<le> length buf" "i * W \<le> length block" using fit assms(2,9) by linarith+
  have len1: "length (take (i * W) buf) = i * W" using iW by simp
  have lb: "length ?b = W * H" using iW assms(9) by (simp add: len1 del: length_take)
  have "store_slice ?b (int (i * W)) ?row
          = Returns (take (i * W) ?b @ ?row @ drop (i * W + length ?row) ?b)"
    by (rule store_slice_nat) (use fit lr lb in simp)
  also have "take (i * W) ?b = take (i * W) buf"
    by (simp add: len1 del: length_take)
  also have "drop (i * W + length ?row) ?b = drop (Suc i * W) block"
    by (simp add: lr len1 add.commute del: length_take)
  also have "take (i * W) buf @ ?row @ drop (Suc i * W) block
               = take (Suc i * W) buf @ drop (Suc i * W) block"
    using take_add [of "i * W" W buf] by (simp add: add.commute)
  finally have s: "store_slice ?b (int (i * W)) ?row
          = Returns (take (Suc i * W) buf @ drop (Suc i * W) block)" .
  have e: "off + i * (3 * W + p) + 3 * W + nat (sint (calculate_padding w))
             = off + Suc i * (3 * W + p)"
    using assms(7) by simp
  show ?thesis
    by (simp only: load_row_def prod.case assms(6) m and_then.simps u r s e)
qed

lemma load_rows:
  assumes "length hdr = off" "length buf = W * H"
    and "\<And>j. j < H \<Longrightarrow> length (pad j) = p"
    and "bs = hdr @ concat (map (row_bytes W pad buf) [0..<H])"
    and "sint w = int W" "p = nat (sint (calculate_padding w))" "int (W * H) \<le> INT_MAX"
    and "length block = W * H"
  shows "\<exists>pos. c_for (int H) (load_row bs w (calculate_padding w)) (block, off) = Returns (buf, pos)"
proof -
  define P where "P = (\<lambda>i (s :: Pixel list \<times> nat).
     s = (take (i * W) buf @ drop (i * W) block, off + i * (3 * W + p)))"
  have "\<exists>s'. for_loop H (int 0) (load_row bs w (calculate_padding w)) (block, off) = Returns s'
          \<and> P (0 + H) s'"
  proof (rule for_loop_invariant [where P = P])
    fix j and s :: "Pixel list \<times> nat"
    assume "j < 0 + H" "P j s"
    then show "\<exists>s'. load_row bs w (calculate_padding w) (int j) s = Returns s' \<and> P (Suc j) s'"
      using load_row_step [OF assms(1,2) _ assms(3,4,5,6,7,8), of j] by (simp add: P_def)
  qed (simp add: P_def)
  then obtain s' where "c_for (int H) (load_row bs w (calculate_padding w)) (block, off) = Returns s'"
    and "P H s'"
    by (auto simp: c_for_def)
  moreover have "take (H * W) buf = buf" "drop (H * W) block = []"
    using assms(2,8) by (simp_all add: mult.commute)
  ultimately show ?thesis
    by (auto simp: P_def)
qed

text \<open>
  \<open>bmp_load\<close> of a file that has the two headers of a 24-bit bitmap, then a gap up to
  the offset that the file header declares, then \<open>H\<close> rows of \<open>W\<close> pixels, each
  followed by as many bytes as \<open>calculate_padding\<close> says.
\<close>

lemma bmp_load_rows:
  assumes "fh_type fh = 0x4D42" "ih_bit_count ih = 24"
    and "sint (ih_width ih) = int W" "sint (ih_height ih) = int H"
    and "unat (fh_offset fh) = 54 + length gap"
    and "length buf = W * H" "int (W * H) \<le> INT_MAX"
    and "p = nat (sint (calculate_padding (ih_width ih)))"
    and "\<And>j. j < H \<Longrightarrow> length (pad j) = p"
    and "bs = fh_bytes fh @ ih_bytes ih @ gap @ concat (map (row_bytes W pad buf) [0..<H])"
    and "alloc_ok env 16" "alloc_ok env (W * H * 3)"
  shows "bmp_load env (Some bs) err_out
           = Returns \<lparr>returned = Some \<lparr>width = ih_width ih, height = ih_height ih,
                                      data = Some buf\<rparr>,
                      err = set_err err_out BMP_SUCCESS,
                      closed = True, mallocs = 2, frees = 0\<rparr>"
proof -
  let ?block = "map (junk_pixel env) [0..<W * H]"
  have le: "int H \<le> INT_MAX"
  proof (cases "W = 0")
    case True
    then show ?thesis using sint_lt [of "ih_height ih"] assms(4) by (simp add: INT_MAX_def)
  next
    case False
    then have "H \<le> W * H" by simp
    then show ?thesis using assms(7) by linarith
  qed
  have a: "c_abs (int H) = Returns (int H)"
    unfolding c_abs_def abs_of_nat by (rule c_int_result_nonneg) (use le in simp_all)
  have m: "c_mul (int H) (int W) = Returns (int (W * H))"
    using assms(7) c_int_result_nonneg [of "int (W * H)"] by (simp add: c_mul_def mult.commute)
  have b: "malloc_pixels env (word_of_int (int (W * H)) * 3) = Some ?block"
    using assms(7,12) by (intro malloc_pixels_ok) simp_all
  have f: "bs = (fh_bytes fh @ ih_bytes ih @ gap) @ concat (map (row_bytes W pad buf) [0..<H])"
    using assms(10) by simp
  have "length (fh_bytes fh @ ih_bytes ih @ gap) = 54 + length gap"
    by (simp add: length_fh_bytes length_ih_bytes)
  then obtain pos where l:
    "c_for (int H) (load_row bs (ih_width ih) (calculate_padding (ih_width ih)))
       (?block, 54 + length gap) = Returns (buf, pos)"
    using load_rows [OF _ assms(6) assms(9) f assms(3) assms(8) assms(7), of "54 + length gap" ?block]
    by auto
  have h: "word_of_int (int H) = ih_height ih"
    using assms(4) [symmetric] by simp
  have "bmp_load env (Some bs) err_out =
           and_then (c_abs (sint (ih_height ih))) (\<lambda>h.
           and_then (c_mul h (sint (ih_width ih))) (\<lambda>n.
             case malloc_pixels env (word_of_int n * 3) of
               None \<Rightarrow>
                 Returns \<lparr>returned = None, err = set_err err_out BMP_ERR_MALLOC_FAILED,
                          closed = True, mallocs = 1, frees = 1\<rparr>
             | Some block \<Rightarrow>
                 and_then
                   (c_for h (load_row bs (ih_width ih) (calculate_padding (ih_width ih)))
                      (block, unat (fh_offset fh)))
                   (\<lambda>(buf, pos).
                      Returns \<lparr>returned = Some \<lparr>width = ih_width ih, height = word_of_int h,
                                                 data = Some buf\<rparr>,
                               err = set_err err_out BMP_SUCCESS,
                               closed = True, mallocs = 2, frees = 0\<rparr>)))"
    by (rule bmp_load_after_headers [OF assms(10) assms(1,2,11)])
  also have "\<dots> = Returns \<lparr>returned = Some \<lparr>width = ih_width ih, height = word_of_int (int H),
                                              data = Some buf\<rparr>,
                            err = set_err err_out BMP_SUCCESS,
                            closed = True, mallocs = 2, frees = 0\<rparr>"
    by (simp only: assms(3,4,5) a m b and_then.simps option.case) (simp add: l)
  finally show ?thesis
    by (simp only: h)
qed

subsection \<open>The padding of a row\<close>

lemma replicate_3: "replicate 3 x = [x, x, x]"
  by (simp add: numeral_3_eq_3)

lemma all_less_2: "(\<forall>i<2. P i) \<longleftrightarrow> P (0 :: nat) \<and> P 1"
  by (auto simp: less_2_cases_iff)

text \<open>
  C8. For every width \<open>w\<close>, the padding that \<open>calculate_padding\<close> returns is
  \<open>(4 - (w * 3) mod 4) mod 4\<close>; it lies between 0 and 3, and \<open>w * 3\<close> plus the padding
  is a multiple of 4. Both \<open>bmp_save\<close> and \<open>bmp_load\<close> use this padding, for every
  width \<open>W\<close> that is not negative. For an image of \<open>W\<close> columns and \<open>H\<close> rows with all
  its \<open>W * H\<close> pixels, in which the index of the first pixel of every row is at most
  \<open>INT_MAX\<close> (as it is in every image of one row), \<open>bmp_save\<close> writes the two headers
  and then, for each of the rows in turn, the \<open>W * 3\<close> bytes of its pixels followed by
  exactly \<open>(4 - (W * 3) mod 4) mod 4\<close> zero bytes. And of a file that has the two
  headers of a 24-bit bitmap of \<open>W\<close> columns and \<open>H\<close> rows, where \<open>W * H\<close> is at most
  \<open>INT_MAX\<close>, then whatever bytes up to the declared offset of the pixels, and then rows
  of \<open>W * 3\<close> bytes of pixels that are each followed by \<open>(4 - (W * 3) mod 4) mod 4\<close>
  bytes of any value, \<open>bmp_load\<close> returns, when its two allocations succeed, the image
  of exactly these pixels: it skips that many bytes after each row.
\<close>

theorem calculate_padding_law:
  "sint (calculate_padding w) = (4 - (sint w * 3) mod 4) mod 4
   \<and> 0 \<le> sint (calculate_padding w) \<and> sint (calculate_padding w) \<le> 3
   \<and> (sint w * 3 + sint (calculate_padding w)) mod 4 = 0
   \<and> (data img = Some buf \<and> sint (width img) = int W \<and> sint (height img) = int H
        \<and> length buf = W * H \<and> (\<forall>i<H. int (i * W) \<le> INT_MAX)
      \<longrightarrow> bmp_save (Some img) True
            = Returns (BMP_SUCCESS,
                Some (fh_bytes (saved_fh img) @ ih_bytes (saved_ih img)
                      @ concat (map (\<lambda>i. concat (map pixel_bytes (take W (drop (i * W) buf)))
                                          @ replicate ((4 - (W * 3) mod 4) mod 4) 0) [0..<H]))))
   \<and> (fh_type fh = 0x4D42 \<and> ih_bit_count ih = 24
        \<and> sint (ih_width ih) = int W \<and> sint (ih_height ih) = int H
        \<and> unat (fh_offset fh) = 54 + length gap
        \<and> length buf = W * H \<and> int (W * H) \<le> INT_MAX
        \<and> (\<forall>i<H. length (pad i) = (4 - (W * 3) mod 4) mod 4)
        \<and> alloc_ok env 16 \<and> alloc_ok env (W * H * 3)
      \<longrightarrow> bmp_load env
             (Some (fh_bytes fh @ ih_bytes ih @ gap
                    @ concat (map (\<lambda>i. concat (map pixel_bytes (take W (drop (i * W) buf))) @ pad i)
                                [0..<H])))
             err_out
            = Returns \<lparr>returned = Some \<lparr>width = ih_width ih, height = ih_height ih,
                                       data = Some buf\<rparr>,
                       err = (if err_out then Some BMP_SUCCESS else None),
                       closed = True, mallocs = 2, frees = 0\<rparr>)"
proof -
  have law: "(sint w * 3 + (4 - (sint w * 3) mod 4) mod 4) mod 4 = 0"
    by presburger
  have padding: "nat (sint (calculate_padding v)) = (4 - (W * 3) mod 4) mod 4" if "sint v = int W" for v
  proof -
    have "(4 - (int W * 3) mod 4) mod 4 = int ((4 - (W * 3) mod 4) mod 4)"
      by (simp add: of_nat_mod of_nat_diff)
    then have "sint (calculate_padding v) = int ((4 - (W * 3) mod 4) mod 4)"
      by (simp only: sint_calculate_padding that)
    then show ?thesis
      by (simp only: nat_int)
  qed
  have rows: "row_bytes W f buf = (\<lambda>i. concat (map pixel_bytes (take W (drop (i * W) buf))) @ f i)"
    for f
    by (rule ext) (simp only: row_bytes_def)
  have save: "bmp_save (Some img) True
            = Returns (BMP_SUCCESS,
                Some (fh_bytes (saved_fh img) @ ih_bytes (saved_ih img)
                      @ concat (map (\<lambda>i. concat (map pixel_bytes (take W (drop (i * W) buf)))
                                          @ replicate ((4 - (W * 3) mod 4) mod 4) 0) [0..<H])))"
    if "data img = Some buf" "sint (width img) = int W" "sint (height img) = int H"
      "length buf = W * H" "\<forall>i<H. int (i * W) \<le> INT_MAX"
  proof -
    have r: "int (i * W) \<le> INT_MAX" if "i < H" for i
      using \<open>\<forall>i<H. int (i * W) \<le> INT_MAX\<close> that by simp
    show ?thesis
      using bmp_save_valid [OF that(1,2,3,4) r refl]
      by (simp only: padding [OF that(2)] rows)
  qed
  have load: "bmp_load env
             (Some (fh_bytes fh @ ih_bytes ih @ gap
                    @ concat (map (\<lambda>i. concat (map pixel_bytes (take W (drop (i * W) buf))) @ pad i)
                                [0..<H])))
             err_out
            = Returns \<lparr>returned = Some \<lparr>width = ih_width ih, height = ih_height ih,
                                       data = Some buf\<rparr>,
                       err = (if err_out then Some BMP_SUCCESS else None),
                       closed = True, mallocs = 2, frees = 0\<rparr>"
    if "fh_type fh = 0x4D42" "ih_bit_count ih = 24"
      "sint (ih_width ih) = int W" "sint (ih_height ih) = int H"
      "unat (fh_offset fh) = 54 + length gap"
      "length buf = W * H" "int (W * H) \<le> INT_MAX"
      "\<forall>i<H. length (pad i) = (4 - (W * 3) mod 4) mod 4"
      "alloc_ok env 16" "alloc_ok env (W * H * 3)"
  proof -
    have l: "length (pad j) = nat (sint (calculate_padding (ih_width ih)))" if "j < H" for j
      using \<open>\<forall>i<H. length (pad i) = (4 - (W * 3) mod 4) mod 4\<close> that
      by (simp add: padding [OF \<open>sint (ih_width ih) = int W\<close>])
    show ?thesis
      using bmp_load_rows [OF that(1,2,3,4,5,6,7) refl l refl that(9,10)]
      by (simp only: rows set_err_def)
  qed
  show ?thesis
    using law save load by (simp only: sint_calculate_padding) simp
qed

theorem calculate_padding_law_witness:
  "sint (calculate_padding 3) = 3
   \<and> (sint (3 :: c_int) * 3 + sint (calculate_padding 3)) mod 4 = 0
   \<and> bmp_save (Some image_3x2) True
     = Returns (BMP_SUCCESS,
         Some (fh_bytes (saved_fh image_3x2) @ ih_bytes (saved_ih image_3x2)
               @ [10, 20, 30, 40, 50, 60, 70, 80, 90, 0, 0, 0,
                  100, 110, 120, 10, 20, 30, 40, 50, 60, 0, 0, 0]))
   \<and> bmp_load env_ok
       (Some (fh_bytes (saved_fh image_3x2\<lparr>fh_offset := 56\<rparr>) @ ih_bytes (saved_ih image_3x2)
              @ [7, 7]
              @ [10, 20, 30, 40, 50, 60, 70, 80, 90, 1, 2, 3,
                 100, 110, 120, 10, 20, 30, 40, 50, 60, 4, 5, 6]))
       True
     = Returns \<lparr>returned = Some image_3x2, err = Some BMP_SUCCESS,
                closed = True, mallocs = 2, frees = 0\<rparr>"
  using calculate_padding_law [where w = 3 and img = image_3x2 and W = 3 and H = 2
      and buf = "[p0, p1, p2, p3, p0, p1]"
      and fh = "saved_fh image_3x2\<lparr>fh_offset := 56\<rparr>" and ih = "saved_ih image_3x2"
      and gap = "[7, 7]" and pad = "\<lambda>i. if i = 0 then [1, 2, 3] else [4, 5, 6]"
      and env = env_ok and err_out = True]
  by (simp add: image_3x2_def env_ok_def INT_MAX_def saved_fh_def saved_ih_def upt_conv_Cons
      pixel_bytes_def p0_def p1_def p2_def p3_def sint_calculate_padding replicate_3
      all_less_2)

subsection \<open>The round trip\<close>

lemma saved_headers:
  "fh_type (saved_fh img) = 0x4D42" "fh_offset (saved_fh img) = 54"
  "ih_bit_count (saved_ih img) = 24" "ih_width (saved_ih img) = width img"
  "ih_height (saved_ih img) = height img"
  by (simp_all add: saved_fh_def saved_ih_def)

lemma save_then_load_unfold:
  assumes "bmp_save (Some img) True = Returns (BMP_SUCCESS, Some bs)"
  shows "save_then_load env (Some img) err_out = bmp_load env (Some bs) err_out"
  by (simp add: save_then_load_def assms)

lemma bmp_load_saved:
  assumes "data img = Some buf" "sint (width img) = int W" "sint (height img) = int H"
    and "length buf = W * H" "int (W * H) \<le> INT_MAX"
    and "p = nat (sint (calculate_padding (width img)))"
    and "bs = fh_bytes (saved_fh img) @ ih_bytes (saved_ih img)
                @ concat (map (row_bytes W (\<lambda>i. replicate p 0) buf) [0..<H])"
    and "alloc_ok env 16" "alloc_ok env (W * H * 3)"
  shows "bmp_load env (Some bs) err_out
           = Returns \<lparr>returned = Some img, err = set_err err_out BMP_SUCCESS,
                      closed = True, mallocs = 2, frees = 0\<rparr>"
proof -
  have i: "\<lparr>width = width img, height = height img, data = Some buf\<rparr> = img"
    using image_surjective [of img] assms(1) by simp
  have f: "bs = fh_bytes (saved_fh img) @ ih_bytes (saved_ih img) @ []
                @ concat (map (row_bytes W (\<lambda>i. replicate p 0) buf) [0..<H])"
    using assms(7) by simp
  have "bmp_load env (Some bs) err_out
           = Returns \<lparr>returned = Some \<lparr>width = ih_width (saved_ih img),
                                      height = ih_height (saved_ih img), data = Some buf\<rparr>,
                      err = set_err err_out BMP_SUCCESS,
                      closed = True, mallocs = 2, frees = 0\<rparr>"
  proof (rule bmp_load_rows [OF _ _ _ _ _ assms(4,5) _ _ f assms(8,9)])
    show "p = nat (sint (calculate_padding (ih_width (saved_ih img))))"
      by (simp only: saved_headers assms(6))
    show "length (replicate p (0 :: byte)) = p" for j :: nat
      by simp
  qed (simp_all add: saved_headers assms(2,3))
  then show ?thesis
    by (simp only: saved_headers i)
qed

lemma bmp_load_overflow:
  assumes "bs = fh_bytes (saved_fh img) @ ih_bytes (saved_ih img) @ body"
    and "alloc_ok env 16" "0 \<le> sint (height img)"
    and "INT_MAX < sint (height img) * sint (width img)"
  shows "bmp_load env (Some bs) err_out = Undefined SignedOverflow"
proof -
  have a: "c_abs (sint (height img)) = Returns (sint (height img))"
    unfolding c_abs_def using assms(3) sint_lt [of "height img"]
    by (simp add: c_int_result_def INT_MAX_def INT_MIN_def)
  have m: "c_mul (sint (height img)) (sint (width img)) = Undefined SignedOverflow"
    using assms(4) by (simp add: c_mul_def c_int_result_def)
  show ?thesis
    by (simp add: bmp_load_after_headers [OF assms(1) saved_headers(1,3) assms(2)]
        saved_headers a m)
qed

text \<open>
  C1, as amended. For every image with positive width and height whose buffer has
  exactly \<open>width * height\<close> pixels, where \<open>width * height\<close> is at most \<open>INT_MAX\<close>,
  \<open>bmp_save\<close> to a sink that opens and then \<open>bmp_load\<close> of the bytes that were written,
  in a system in which the two allocations of \<open>bmp_load\<close> succeed, returns an image with
  the same width, the same height and the same pixels in the same places; the stream is
  closed, and \<open>BMP_SUCCESS\<close> is stored through \<open>err_out\<close> when that is not null.
\<close>

theorem save_then_load_round_trip:
  assumes "data img = Some buf"
    and "0 < sint (width img)" "0 < sint (height img)"
    and "int (length buf) = sint (width img) * sint (height img)"
    and "sint (width img) * sint (height img) \<le> INT_MAX"
    and "alloc_ok env 16" "alloc_ok env (length buf * 3)"
  shows "save_then_load env (Some img) err_out
           = Returns \<lparr>returned = Some img,
                      err = (if err_out then Some BMP_SUCCESS else None),
                      closed = True, mallocs = 2, frees = 0\<rparr>"
proof -
  define W where "W = nat (sint (width img))"
  define H where "H = nat (sint (height img))"
  define p where "p = nat (sint (calculate_padding (width img)))"
  have w: "sint (width img) = int W" and h: "sint (height img) = int H"
    and len: "length buf = W * H"
    using assms nat_dims [of "sint (width img)" "sint (height img)" "length buf"]
    by (simp_all add: W_def H_def)
  have le: "int (W * H) \<le> INT_MAX"
    using assms(5) by (simp add: w h)
  have rows: "int (i * W) \<le> INT_MAX" if "i < H" for i
  proof -
    have "i * W \<le> W * H" using row_fits [OF that, of W] by linarith
    then show ?thesis using le by linarith
  qed
  let ?file = "fh_bytes (saved_fh img) @ ih_bytes (saved_ih img)
                @ concat (map (row_bytes W (\<lambda>i. replicate p 0) buf) [0..<H])"
  have s: "bmp_save (Some img) True = Returns (BMP_SUCCESS, Some ?file)"
    by (rule bmp_save_valid [OF assms(1) w h len rows p_def])
  have "bmp_load env (Some ?file) err_out
           = Returns \<lparr>returned = Some img, err = set_err err_out BMP_SUCCESS,
                      closed = True, mallocs = 2, frees = 0\<rparr>"
    by (rule bmp_load_saved [OF assms(1) w h len le p_def refl assms(6)])
      (use assms(7) len in simp)
  then show ?thesis
    by (simp add: save_then_load_unfold [OF s] set_err_def)
qed

theorem save_then_load_round_trip_witness:
  "save_then_load env_ok (Some image_3x2) True
     = Returns \<lparr>returned = Some image_3x2, err = Some BMP_SUCCESS,
                closed = True, mallocs = 2, frees = 0\<rparr>"
  using save_then_load_round_trip [of image_3x2 "[p0, p1, p2, p3, p0, p1]" env_ok True]
  by (simp add: image_3x2_def env_ok_def INT_MAX_def)

text \<open>
  The claim as stated fails on the image of \<open>2 ^ 30\<close> columns and 2 rows with all its
  pixels: \<open>bmp_save\<close> writes it, and in \<open>bmp_load\<close> the product
  \<^verbatim>\<open>img->height * img->width\<close> overflows. It also fails on the image of 3 columns and 2
  rows when the allocation of the pixel block fails: \<open>bmp_load\<close> returns the null pointer
  with \<open>BMP_ERR_MALLOC_FAILED\<close>.
\<close>

theorem save_then_load_counterexample:
  "data huge_image = Some (replicate 2147483648 p0)
   \<and> 0 < sint (width huge_image) \<and> 0 < sint (height huge_image)
   \<and> int (length (replicate 2147483648 p0)) = sint (width huge_image) * sint (height huge_image)
   \<and> save_then_load env_ok (Some huge_image) True = Undefined SignedOverflow
   \<and> save_then_load env_no_memory (Some image_3x2) True
       = Returns \<lparr>returned = None, err = Some BMP_ERR_MALLOC_FAILED,
                  closed = True, mallocs = 1, frees = 1\<rparr>"
proof -
  let ?p = "nat (sint (calculate_padding (width huge_image)))"
  let ?file = "fh_bytes (saved_fh huge_image) @ ih_bytes (saved_ih huge_image)
                @ concat (map (row_bytes 1073741824 (\<lambda>i. replicate ?p 0)
                                 (replicate 2147483648 p0)) [0..<2])"
  have rows: "int (i * 1073741824) \<le> INT_MAX" if "i < 2" for i :: nat
  proof -
    have "i = 0 \<or> i = 1" using that by arith
    then show ?thesis by (auto simp: INT_MAX_def)
  qed
  have s: "bmp_save (Some huge_image) True = Returns (BMP_SUCCESS, Some ?file)"
    by (rule bmp_save_valid [OF _ _ _ _ rows refl]) (simp_all add: huge_image_def)
  have l: "bmp_load env_ok (Some ?file) True = Undefined SignedOverflow"
    by (rule bmp_load_overflow [OF refl]) (simp_all add: huge_image_def env_ok_def INT_MAX_def)
  have 1: "save_then_load env_ok (Some huge_image) True = Undefined SignedOverflow"
    by (simp only: save_then_load_unfold [OF s] l)
  let ?q = "nat (sint (calculate_padding (width image_3x2)))"
  let ?small = "fh_bytes (saved_fh image_3x2) @ ih_bytes (saved_ih image_3x2)
                @ concat (map (row_bytes 3 (\<lambda>i. replicate ?q 0) [p0, p1, p2, p3, p0, p1]) [0..<2])"
  have rows': "int (i * 3) \<le> INT_MAX" if "i < 2" for i :: nat
    using that by (simp add: INT_MAX_def)
  have s': "bmp_save (Some image_3x2) True = Returns (BMP_SUCCESS, Some ?small)"
    by (rule bmp_save_valid [OF _ _ _ _ rows' refl]) (simp_all add: image_3x2_def)
  have n: "malloc_pixels env_no_memory (word_of_int (int 6) * 3) = None"
    by (rule malloc_pixels_fails) (simp_all add: env_no_memory_def env_ok_def INT_MAX_def)
  have "alloc_ok env_no_memory 16" by (simp add: env_no_memory_def env_ok_def)
  then have "bmp_load env_no_memory (Some ?small) True
          = Returns \<lparr>returned = None, err = Some BMP_ERR_MALLOC_FAILED,
                  closed = True, mallocs = 1, frees = 1\<rparr>"
    using n
    by (simp add: bmp_load_after_headers [OF refl saved_headers(1,3)] saved_headers
        image_3x2_def c_abs_def c_mul_def c_int_result_def INT_MAX_def INT_MIN_def set_err_def)
  then have 2: "save_then_load env_no_memory (Some image_3x2) True
       = Returns \<lparr>returned = None, err = Some BMP_ERR_MALLOC_FAILED,
                  closed = True, mallocs = 1, frees = 1\<rparr>"
    by (simp only: save_then_load_unfold [OF s'])
  show ?thesis
    using 1 2 by (simp add: huge_image_def)
qed

end
